theory Spec2Isabelle
  imports Main
begin

section \<open>Python values: errors and indexing\<close>

text \<open>
  The module \<open>old_smith_waterman.py\<close> raises three kinds of exception in the code
  modelled here: an \<open>IndexError\<close> from subscripting, an \<open>AssertionError\<close> from
  the two \<open>assert\<close> statements, and the \<open>ValueError\<close> of the traceback. The last two
  carry the message the source gives them.
\<close>

datatype error = IndexError | AssertionError string | ValueError string

definition ebind :: "error + 'a \<Rightarrow> ('a \<Rightarrow> error + 'b) \<Rightarrow> error + 'b" where
  "ebind m f = (case m of Inl e \<Rightarrow> Inl e | Inr v \<Rightarrow> f v)"

text \<open>
  Subscripting \<open>xs[i]\<close>: an index from \<open>-len(xs)\<close> to \<open>-1\<close> counts from the end,
  anything outside \<open>-len(xs) .. len(xs) - 1\<close> raises.
\<close>

definition py_index :: "'a list \<Rightarrow> int \<Rightarrow> error + 'a" where
  "py_index xs i =
     (if 0 \<le> i \<and> i < int (length xs) then Inr (xs ! nat i)
      else if - int (length xs) \<le> i \<and> i < 0 then Inr (xs ! nat (int (length xs) + i))
      else Inl IndexError)"

text \<open>\<open>m[i][j]\<close>\<close>

definition py_index2 :: "'a list list \<Rightarrow> int \<Rightarrow> int \<Rightarrow> error + 'a" where
  "py_index2 m i j = ebind (py_index m i) (\<lambda>row. py_index row j)"

text \<open>The assignment \<open>xs[i] = v\<close>, with the same index rule.\<close>

definition py_assign :: "'a list \<Rightarrow> int \<Rightarrow> 'a \<Rightarrow> error + 'a list" where
  "py_assign xs i v =
     (if 0 \<le> i \<and> i < int (length xs) then Inr (xs[nat i := v])
      else if - int (length xs) \<le> i \<and> i < 0 then Inr (xs[nat (int (length xs) + i) := v])
      else Inl IndexError)"

text \<open>\<open>m[i][j] = v\<close>: the row is fetched, then updated in place.\<close>

definition py_assign2 :: "'a list list \<Rightarrow> int \<Rightarrow> int \<Rightarrow> 'a \<Rightarrow> error + 'a list list" where
  "py_assign2 m i j v =
     ebind (py_index m i) (\<lambda>row.
     ebind (py_assign row j v) (\<lambda>row'.
     py_assign m i row'))"

section \<open>The score matrix\<close>

definition match :: int where "match = 2"
definition mismatch :: int where "mismatch = - 1"
definition gap :: int where "gap = - 1"

text \<open>
  \<open>calc_score\<close> is nested in \<open>_create_score_matrix\<close> and closes over \<open>seq1\<close> and
  \<open>seq2\<close>, which are parameters here.
\<close>

definition calc_score :: "string \<Rightarrow> string \<Rightarrow> int list list \<Rightarrow> int \<Rightarrow> int \<Rightarrow> error + int" where
  "calc_score seq1 seq2 matrix x y =
     ebind (py_index seq1 (x - 1)) (\<lambda>c1.
     ebind (py_index seq2 (y - 1)) (\<lambda>c2.
     let similarity = (if c1 = c2 then match else mismatch) in
     ebind (py_index2 matrix (x - 1) (y - 1)) (\<lambda>d.
     ebind (py_index2 matrix (x - 1) y) (\<lambda>u.
     ebind (py_index2 matrix x (y - 1)) (\<lambda>l.
     let diag_score = d + similarity;
         up_score = u + gap;
         left_score = l + gap
     in Inr (max 0 (max diag_score (max up_score left_score))))))))"

text \<open>The variables the two nested loops of \<open>_create_score_matrix\<close> update.\<close>

record fill_state =
  score_matrix :: "int list list"
  max_score :: int
  max_pos :: "(int \<times> int) option"

text \<open>The body of the inner loop, at row \<open>i\<close> and column \<open>j\<close>.\<close>

definition fill_cell :: "string \<Rightarrow> string \<Rightarrow> nat \<Rightarrow> nat \<Rightarrow> fill_state \<Rightarrow> error + fill_state" where
  "fill_cell seq1 seq2 i j st =
     ebind (calc_score seq1 seq2 (score_matrix st) (int i) (int j)) (\<lambda>score.
     let st' = (if score > max_score st
                then st\<lparr>max_score := score, max_pos := Some (int i, int j)\<rparr>
                else st)
     in ebind (py_assign2 (score_matrix st') (int i) (int j) score) (\<lambda>m.
        Inr (st'\<lparr>score_matrix := m\<rparr>)))"

text \<open>\<open>for j in range(1, cols)\<close>, over the columns still to visit.\<close>

fun fill_row :: "string \<Rightarrow> string \<Rightarrow> nat \<Rightarrow> nat list \<Rightarrow> fill_state \<Rightarrow> error + fill_state" where
  "fill_row seq1 seq2 i [] st = Inr st"
| "fill_row seq1 seq2 i (j # js) st =
     ebind (fill_cell seq1 seq2 i j st) (fill_row seq1 seq2 i js)"

text \<open>\<open>for i in range(1, rows)\<close>, over the rows still to visit.\<close>

fun fill_rows :: "string \<Rightarrow> string \<Rightarrow> nat \<Rightarrow> nat list \<Rightarrow> fill_state \<Rightarrow> error + fill_state" where
  "fill_rows seq1 seq2 cols [] st = Inr st"
| "fill_rows seq1 seq2 cols (i # is) st =
     ebind (fill_row seq1 seq2 i [1..<cols] st) (fill_rows seq1 seq2 cols is)"

text \<open>\<open>_create_score_matrix\<close> up to its final assertion.\<close>

definition fill_matrix :: "nat \<Rightarrow> nat \<Rightarrow> string \<Rightarrow> string \<Rightarrow> error + fill_state" where
  "fill_matrix rows cols seq1 seq2 =
     fill_rows seq1 seq2 cols [1..<rows]
       \<lparr>score_matrix = replicate rows (replicate cols 0), max_score = 0, max_pos = None\<rparr>"

definition create_score_matrix ::
  "nat \<Rightarrow> nat \<Rightarrow> string \<Rightarrow> string \<Rightarrow> error + (int list list \<times> (int \<times> int))" where
  "create_score_matrix rows cols seq1 seq2 =
     ebind (fill_matrix rows cols seq1 seq2) (\<lambda>st.
     case max_pos st of
       None \<Rightarrow> Inl (AssertionError ''the x, y position with the highest score was not found'')
     | Some p \<Rightarrow> Inr (score_matrix st, p))"

section \<open>The traceback\<close>

datatype move = END | DIAG | UP | LEFT

definition next_move :: "int list list \<Rightarrow> int \<Rightarrow> int \<Rightarrow> error + move" where
  "next_move matrix x y =
     ebind (py_index2 matrix (x - 1) (y - 1)) (\<lambda>diag.
     ebind (py_index2 matrix (x - 1) y) (\<lambda>up.
     ebind (py_index2 matrix x (y - 1)) (\<lambda>left.
       if diag \<ge> up \<and> diag \<ge> left then Inr (if diag \<noteq> 0 then DIAG else END)
       else if up > diag \<and> up \<ge> left then Inr (if up \<noteq> 0 then UP else END)
       else if left > diag \<and> left > up then Inr (if left \<noteq> 0 then LEFT else END)
       else Inl (ValueError ''invalid move during traceback''))))"

text \<open>
  The variables of the \<open>while\<close> loop of \<open>_traceback\<close>. The two output lists grow at
  their end (\<open>append\<close>) and are reversed after the loop.
\<close>

record tb_state =
  tb_x :: int
  tb_y :: int
  tb_aligned_seq1 :: string
  tb_aligned_seq2 :: string
  tb_move :: move

text \<open>
  One iteration of \<open>while move != END\<close>. The last \<open>else\<close> of the source
  (\<open>Invalid move value\<close>) is the case \<open>END\<close>, which the loop condition excludes.
\<close>

definition loop_body :: "int list list \<Rightarrow> string \<Rightarrow> string \<Rightarrow> tb_state \<Rightarrow> error + tb_state" where
  "loop_body matrix seq1 seq2 st =
     ebind
       (case tb_move st of
          DIAG \<Rightarrow>
            ebind (py_index seq1 (tb_x st - 1)) (\<lambda>c1.
            ebind (py_index seq2 (tb_y st - 1)) (\<lambda>c2.
            Inr (st\<lparr>tb_aligned_seq1 := tb_aligned_seq1 st @ [c1],
                    tb_aligned_seq2 := tb_aligned_seq2 st @ [c2],
                    tb_x := tb_x st - 1, tb_y := tb_y st - 1\<rparr>)))
        | UP \<Rightarrow>
            ebind (py_index seq1 (tb_x st - 1)) (\<lambda>c1.
            Inr (st\<lparr>tb_aligned_seq1 := tb_aligned_seq1 st @ [c1],
                    tb_aligned_seq2 := tb_aligned_seq2 st @ [CHR ''-''],
                    tb_x := tb_x st - 1\<rparr>))
        | LEFT \<Rightarrow>
            ebind (py_index seq2 (tb_y st - 1)) (\<lambda>c2.
            Inr (st\<lparr>tb_aligned_seq1 := tb_aligned_seq1 st @ [CHR ''-''],
                    tb_aligned_seq2 := tb_aligned_seq2 st @ [c2],
                    tb_y := tb_y st - 1\<rparr>))
        | END \<Rightarrow> Inl (ValueError ''Invalid move value''))
       (\<lambda>st'. ebind (next_move matrix (tb_x st') (tb_y st')) (\<lambda>mv.
              Inr (st'\<lparr>tb_move := mv\<rparr>)))"

text \<open>The first \<open>n\<close> iterations of the loop (fewer when it ends before).\<close>

fun loop_iter :: "int list list \<Rightarrow> string \<Rightarrow> string \<Rightarrow> nat \<Rightarrow> tb_state \<Rightarrow> error + tb_state" where
  "loop_iter matrix seq1 seq2 0 st = Inr st"
| "loop_iter matrix seq1 seq2 (Suc n) st =
     (if tb_move st \<noteq> END
      then ebind (loop_body matrix seq1 seq2 st) (loop_iter matrix seq1 seq2 n)
      else Inr st)"

subsection \<open>Termination of the loop\<close>

text \<open>
  Each iteration lowers \<open>x + y\<close>, and \<open>_next_move\<close> raises \<open>IndexError\<close> once an
  index falls below minus the length of the list it subscripts, so the loop ends on
  every matrix, also on one that \<open>_create_score_matrix\<close> did not build.
\<close>

lemma ebind_simps [simp]:
  "ebind (Inl e) f = Inl e"
  "ebind (Inr v) f = f v"
  by (simp_all add: ebind_def)

lemma ebind_cong [fundef_cong]:
  "m = m' \<Longrightarrow> (\<And>v. m' = Inr v \<Longrightarrow> f v = f' v) \<Longrightarrow> ebind m f = ebind m' f'"
  by (cases m') (simp_all add: ebind_def)

lemma ebind_eq_Inr: "ebind m f = Inr r \<longleftrightarrow> (\<exists>v. m = Inr v \<and> f v = Inr r)"
  by (cases m) simp_all

definition width :: "'a list list \<Rightarrow> nat" where
  "width m = fold max (map length m) 0"

lemma fold_max_ge: "(a::nat) \<le> fold max xs a"
  by (induction xs arbitrary: a) (auto intro: order_trans [OF max.cobounded2])

lemma fold_max_mem: "x \<in> set xs \<Longrightarrow> (x::nat) \<le> fold max xs a"
proof (induction xs arbitrary: a)
  case Nil
  then show ?case by simp
next
  case (Cons z zs)
  show ?case
  proof (cases "x = z")
    case True
    have "max z a \<le> fold max zs (max z a)" by (rule fold_max_ge)
    with True show ?thesis by simp
  next
    case False
    with Cons show ?thesis by simp
  qed
qed

lemma width_ge: "row \<in> set m \<Longrightarrow> length row \<le> width m"
  unfolding width_def by (rule fold_max_mem) simp

lemma py_index_Inr_mem: "py_index xs i = Inr v \<Longrightarrow> v \<in> set xs"
  by (auto simp: py_index_def split: if_splits)

lemma py_index_Inr_bounds:
  "py_index xs i = Inr v \<Longrightarrow> - int (length xs) \<le> i \<and> i < int (length xs)"
  by (auto simp: py_index_def split: if_splits)

lemma py_index2_bounds:
  assumes "py_index2 m i j = Inr v"
  shows "- int (length m) \<le> i" and "- int (width m) \<le> j"
proof -
  from assms obtain row where r: "py_index m i = Inr row" and c: "py_index row j = Inr v"
    by (auto simp: py_index2_def ebind_eq_Inr)
  from r show "- int (length m) \<le> i" by (simp add: py_index_Inr_bounds)
  from r have "row \<in> set m" by (rule py_index_Inr_mem)
  then have "length row \<le> width m" by (rule width_ge)
  moreover from c have "- int (length row) \<le> j" by (simp add: py_index_Inr_bounds)
  ultimately show "- int (width m) \<le> j" by linarith
qed

lemma next_move_bounds:
  assumes "next_move m x y = Inr mv"
  shows "1 \<le> x + int (length m)" and "1 \<le> y + int (width m)"
proof -
  from assms obtain d where "py_index2 m (x - 1) (y - 1) = Inr d"
    by (auto simp: next_move_def ebind_eq_Inr)
  from py_index2_bounds [OF this] show "1 \<le> x + int (length m)" and "1 \<le> y + int (width m)"
    by linarith+
qed

definition tb_measure :: "int list list \<Rightarrow> tb_state \<Rightarrow> nat" where
  "tb_measure m st = nat (tb_x st + int (length m)) + nat (tb_y st + int (width m))"

lemma loop_body_coords:
  assumes "loop_body m s1 s2 st = Inr st'"
  shows "tb_x st' \<le> tb_x st" "tb_y st' \<le> tb_y st" "tb_x st' + tb_y st' < tb_x st + tb_y st"
    "next_move m (tb_x st') (tb_y st') = Inr (tb_move st')"
  using assms
  by (auto simp: loop_body_def ebind_eq_Inr split: move.splits)

lemma loop_body_measure:
  assumes "loop_body m s1 s2 st = Inr st'"
  shows "tb_measure m st' < tb_measure m st"
proof -
  note c = loop_body_coords [OF assms]
  note b = next_move_bounds [OF c(4)]
  show ?thesis unfolding tb_measure_def using c(1-3) b by linarith
qed

text \<open>\<open>while move != END\<close>\<close>

function traceback_loop :: "int list list \<Rightarrow> string \<Rightarrow> string \<Rightarrow> tb_state \<Rightarrow> error + tb_state" where
  "traceback_loop matrix seq1 seq2 st =
     (if tb_move st \<noteq> END
      then ebind (loop_body matrix seq1 seq2 st) (traceback_loop matrix seq1 seq2)
      else Inr st)"
  by pat_completeness auto
termination
  by (relation "measure (\<lambda>(m, s1, s2, st). tb_measure m st)") (auto simp: loop_body_measure)

declare traceback_loop.simps [simp del]

text \<open>
  \<open>_traceback\<close>: the first move, the loop, then the pair at the position where the
  loop stopped, appended whatever that position is.
\<close>

definition traceback ::
  "int list list \<Rightarrow> int \<times> int \<Rightarrow> string \<Rightarrow> string \<Rightarrow> error + (string \<times> string)" where
  "traceback matrix start_pos seq1 seq2 =
     (case start_pos of (x, y) \<Rightarrow>
        ebind (next_move matrix x y) (\<lambda>mv.
        ebind (traceback_loop matrix seq1 seq2
                 \<lparr>tb_x = x, tb_y = y, tb_aligned_seq1 = [], tb_aligned_seq2 = [],
                  tb_move = mv\<rparr>) (\<lambda>st.
        ebind (py_index seq1 (tb_x st - 1)) (\<lambda>c1.
        ebind (py_index seq2 (tb_y st - 1)) (\<lambda>c2.
        Inr (rev (tb_aligned_seq1 st @ [c1]), rev (tb_aligned_seq2 st @ [c2])))))))"

section \<open>The entry point\<close>

definition align :: "string \<Rightarrow> string \<Rightarrow> error + (string \<times> string \<times> int)" where
  "align seq1 seq2 =
     (let rows = length seq1 + 1;
          cols = length seq2 + 1
      in ebind (create_score_matrix rows cols seq1 seq2) (\<lambda>(matrix, start_pos).
         case start_pos of (x, y) \<Rightarrow>
         ebind (py_index2 matrix x y) (\<lambda>score.
         ebind (traceback matrix start_pos seq1 seq2) (\<lambda>(seq1_aligned, seq2_aligned).
         if length seq1_aligned = length seq2_aligned
         then Inr (seq1_aligned, seq2_aligned, score)
         else Inl (AssertionError ''aligned strings are not the same size'')))))"

section \<open>The alignment string\<close>



section \<open>Indexing never raises a \<open>ValueError\<close>\<close>

lemma py_index_cases: "py_index xs i = Inl IndexError \<or> (\<exists>v. py_index xs i = Inr v)"
  by (simp add: py_index_def)

lemma py_index2_cases: "py_index2 m i j = Inl IndexError \<or> (\<exists>v. py_index2 m i j = Inr v)"
proof (cases "py_index m i")
  case (Inl e)
  with py_index_cases [of m i] show ?thesis by (simp add: py_index2_def)
next
  case (Inr row)
  with py_index_cases [of row j] show ?thesis by (simp add: py_index2_def)
qed

section \<open>The move selection is exhaustive\<close>

text \<open>
  Claim C9. The three conditions of \<open>_next_move\<close> on \<open>diag\<close>, \<open>up\<close> and \<open>left\<close> cover
  every ordering of three integers, so the branch that raises
  \<open>ValueError('invalid move during traceback')\<close> is never taken: whatever the matrix and
  the position, so in particular on a matrix built by \<open>_create_score_matrix\<close> at a
  position the traceback reaches, \<open>_next_move\<close> returns a move or raises an
  \<open>IndexError\<close>, never a \<open>ValueError\<close>.
\<close>

theorem next_move_exhaustive:
  "next_move matrix x y \<noteq> Inl (ValueError msg)"
proof -
  consider (a) "py_index2 matrix (x - 1) (y - 1) = Inl IndexError"
    | (b) d where "py_index2 matrix (x - 1) (y - 1) = Inr d"
        "py_index2 matrix (x - 1) y = Inl IndexError"
    | (c) d u where "py_index2 matrix (x - 1) (y - 1) = Inr d"
        "py_index2 matrix (x - 1) y = Inr u" "py_index2 matrix x (y - 1) = Inl IndexError"
    | (d) d u l where "py_index2 matrix (x - 1) (y - 1) = Inr d"
        "py_index2 matrix (x - 1) y = Inr u" "py_index2 matrix x (y - 1) = Inr l"
    using py_index2_cases [of matrix "x - 1" "y - 1"] py_index2_cases [of matrix "x - 1" y]
      py_index2_cases [of matrix x "y - 1"] by blast
  then show ?thesis
  proof cases
    case d
    have "d \<ge> u \<and> d \<ge> l \<or> u > d \<and> u \<ge> l \<or> l > d \<and> l > u" by linarith
    with d show ?thesis by (auto simp: next_move_def)
  qed (simp_all add: next_move_def)
qed

section \<open>The alignment string: marks and counters\<close>










section \<open>The loop invariant of \<open>_create_score_matrix\<close>\<close>

text \<open>
  \<open>score_at seq1 seq2 i j\<close> is the value \<open>calc_score\<close> computes for the cell
  \<open>(i, j)\<close>, as a function of the position alone. It is used to state the loop
  invariant only: the theorems on the matrix are stated on the matrix itself.
\<close>

fun score_at :: "string \<Rightarrow> string \<Rightarrow> nat \<Rightarrow> nat \<Rightarrow> int" where
  "score_at seq1 seq2 0 j = 0"
| "score_at seq1 seq2 (Suc i) 0 = 0"
| "score_at seq1 seq2 (Suc i) (Suc j) =
     max 0 (max (score_at seq1 seq2 i j + (if seq1 ! i = seq2 ! j then match else mismatch))
           (max (score_at seq1 seq2 i (Suc j) + gap) (score_at seq1 seq2 (Suc i) j + gap)))"

text \<open>A matrix of \<open>rows\<close> rows of \<open>cols\<close> cells each.\<close>

definition wf_matrix :: "'a list list \<Rightarrow> nat \<Rightarrow> nat \<Rightarrow> bool" where
  "wf_matrix m rows cols \<longleftrightarrow> length m = rows \<and> (\<forall>r\<in>set m. length r = cols)"

text \<open>The cell \<open>(a, b)\<close> comes before \<open>(i, j)\<close> in the row-major scan.\<close>

definition visited :: "nat \<Rightarrow> nat \<Rightarrow> nat \<Rightarrow> nat \<Rightarrow> bool" where
  "visited i j a b \<longleftrightarrow> a < i \<or> (a = i \<and> b < j)"

text \<open>
  Before the cell \<open>(i, j)\<close> is computed: the cells before it hold their final
  value, the others still hold the initial zero.
\<close>

definition cells_inv :: "string \<Rightarrow> string \<Rightarrow> nat \<Rightarrow> nat \<Rightarrow> nat \<Rightarrow> nat \<Rightarrow> int list list \<Rightarrow> bool" where
  "cells_inv seq1 seq2 rows cols i j m \<longleftrightarrow>
     wf_matrix m rows cols \<and>
     (\<forall>a<rows. \<forall>b<cols. m ! a ! b = (if visited i j a b then score_at seq1 seq2 a b else 0))"

text \<open>
  Before the cell \<open>(i, j)\<close> is computed: \<open>max_score\<close> bounds the cells before it,
  and \<open>max_pos\<close> is unset while \<open>max_score\<close> is zero, else the first cell
  that holds \<open>max_score\<close>.
\<close>

definition max_inv :: "string \<Rightarrow> string \<Rightarrow> nat \<Rightarrow> nat \<Rightarrow> nat \<Rightarrow> fill_state \<Rightarrow> bool" where
  "max_inv seq1 seq2 cols i j st \<longleftrightarrow>
     0 \<le> max_score st \<and>
     (\<forall>a b. 1 \<le> a \<and> 1 \<le> b \<and> b < cols \<and> visited i j a b \<longrightarrow> score_at seq1 seq2 a b \<le> max_score st) \<and>
     (case max_pos st of
        None \<Rightarrow> max_score st = 0
      | Some (x, y) \<Rightarrow>
          \<exists>a b. x = int a \<and> y = int b \<and> 1 \<le> a \<and> 1 \<le> b \<and> b < cols \<and> visited i j a b \<and>
            score_at seq1 seq2 a b = max_score st \<and> 0 < max_score st \<and>
            (\<forall>a' b'. 1 \<le> a' \<and> 1 \<le> b' \<and> b' < cols \<and> visited a b a' b' \<longrightarrow>
                 score_at seq1 seq2 a' b' < max_score st))"

declare score_at.simps(3) [simp del]

lemma score_at_col0 [simp]: "score_at seq1 seq2 a 0 = 0"
  by (cases a) simp_all

lemma score_at_nonneg: "0 \<le> score_at seq1 seq2 a b"
  by (cases a; cases b) (simp_all add: score_at.simps(3))

lemma py_index_nat: "i < length xs \<Longrightarrow> py_index xs (int i) = Inr (xs ! i)"
  by (simp add: py_index_def)

lemma py_assign_nat: "i < length xs \<Longrightarrow> py_assign xs (int i) v = Inr (xs[i := v])"
  by (simp add: py_assign_def)

lemma py_index2_nat:
  "wf_matrix m rows cols \<Longrightarrow> a < rows \<Longrightarrow> b < cols \<Longrightarrow> py_index2 m (int a) (int b) = Inr (m ! a ! b)"
  by (simp add: py_index2_def wf_matrix_def py_index_nat)

lemma py_assign2_nat:
  "wf_matrix m rows cols \<Longrightarrow> a < rows \<Longrightarrow> b < cols \<Longrightarrow>
   py_assign2 m (int a) (int b) v = Inr (m[a := (m ! a)[b := v]])"
  by (simp add: py_assign2_def wf_matrix_def py_index_nat py_assign_nat)

lemma wf_matrix_update:
  "wf_matrix m rows cols \<Longrightarrow> a < rows \<Longrightarrow> wf_matrix (m[a := (m ! a)[b := v]]) rows cols"
  by (auto simp: wf_matrix_def dest!: set_update_subset_insert [THEN subsetD])

lemma nth_matrix_update:
  "wf_matrix m rows cols \<Longrightarrow> a < rows \<Longrightarrow> b < cols \<Longrightarrow> a' < rows \<Longrightarrow> b' < cols \<Longrightarrow>
   m[a := (m ! a)[b := v]] ! a' ! b' = (if a' = a \<and> b' = b then v else m ! a' ! b')"
  by (auto simp: wf_matrix_def nth_list_update)

lemma calc_score_eq:
  assumes wf: "wf_matrix m (Suc (length seq1)) (Suc (length seq2))"
    and i: "i < length seq1" and j: "j < length seq2"
    and d: "m ! i ! j = score_at seq1 seq2 i j"
    and u: "m ! i ! Suc j = score_at seq1 seq2 i (Suc j)"
    and l: "m ! Suc i ! j = score_at seq1 seq2 (Suc i) j"
  shows "calc_score seq1 seq2 m (int (Suc i)) (int (Suc j)) = Inr (score_at seq1 seq2 (Suc i) (Suc j))"
proof -
  have 1: "py_index seq1 (int (Suc i) - 1) = Inr (seq1 ! i)"
    using py_index_nat [OF i] by simp
  have 2: "py_index seq2 (int (Suc j) - 1) = Inr (seq2 ! j)"
    using py_index_nat [OF j] by simp
  have 3: "py_index2 m (int (Suc i) - 1) (int (Suc j) - 1) = Inr (m ! i ! j)"
    using py_index2_nat [OF wf, of i j] i j by simp
  have 4: "py_index2 m (int (Suc i) - 1) (int (Suc j)) = Inr (m ! i ! Suc j)"
    using py_index2_nat [OF wf, of i "Suc j"] i j by simp
  have 5: "py_index2 m (int (Suc i)) (int (Suc j) - 1) = Inr (m ! Suc i ! j)"
    using py_index2_nat [OF wf, of "Suc i" j] i j by simp
  show ?thesis
    unfolding calc_score_def 1 2 3 4 5 by (simp add: Let_def d u l score_at.simps(3))
qed

lemma fill_cell_step:
  assumes c: "cells_inv seq1 seq2 (Suc (length seq1)) (Suc (length seq2)) (Suc i) (Suc j) (score_matrix st)"
    and m: "max_inv seq1 seq2 (Suc (length seq2)) (Suc i) (Suc j) st"
    and i: "i < length seq1" and j: "j < length seq2"
  shows "\<exists>st'. fill_cell seq1 seq2 (Suc i) (Suc j) st = Inr st' \<and>
      cells_inv seq1 seq2 (Suc (length seq1)) (Suc (length seq2)) (Suc i) (Suc (Suc j)) (score_matrix st') \<and>
      max_inv seq1 seq2 (Suc (length seq2)) (Suc i) (Suc (Suc j)) st'"
proof -
  let ?rows = "Suc (length seq1)" and ?cols = "Suc (length seq2)"
  let ?M = "score_matrix st"
  let ?v = "score_at seq1 seq2 (Suc i) (Suc j)"
  from c have wf: "wf_matrix ?M ?rows ?cols"
    and cells: "\<And>a b. a < ?rows \<Longrightarrow> b < ?cols \<Longrightarrow>
        ?M ! a ! b = (if visited (Suc i) (Suc j) a b then score_at seq1 seq2 a b else 0)"
    by (simp_all add: cells_inv_def)
  have d: "?M ! i ! j = score_at seq1 seq2 i j"
    using cells [of i j] i j by (simp add: visited_def)
  have u: "?M ! i ! Suc j = score_at seq1 seq2 i (Suc j)"
    using cells [of i "Suc j"] i j by (simp add: visited_def)
  have l: "?M ! Suc i ! j = score_at seq1 seq2 (Suc i) j"
    using cells [of "Suc i" j] i j by (simp add: visited_def)
  have cs: "calc_score seq1 seq2 ?M (int (Suc i)) (int (Suc j)) = Inr ?v"
    by (rule calc_score_eq [OF wf i j d u l])
  define st1 where "st1 = (if ?v > max_score st
                then st\<lparr>max_score := ?v, max_pos := Some (int (Suc i), int (Suc j))\<rparr>
                else st)"
  define st' where "st' = st1\<lparr>score_matrix := ?M[Suc i := (?M ! Suc i)[Suc j := ?v]]\<rparr>"
  have M1: "score_matrix st1 = ?M" by (simp add: st1_def)
  have as: "py_assign2 (score_matrix st1) (int (Suc i)) (int (Suc j)) ?v
      = Inr (?M[Suc i := (?M ! Suc i)[Suc j := ?v]])"
    unfolding M1 using py_assign2_nat [OF wf, of "Suc i" "Suc j"] i j by simp
  have run: "fill_cell seq1 seq2 (Suc i) (Suc j) st = Inr st'"
    unfolding fill_cell_def cs ebind_simps Let_def st1_def [symmetric] as st'_def ..
  have vis: "\<And>a b. visited (Suc i) (Suc (Suc j)) a b \<longleftrightarrow> visited (Suc i) (Suc j) a b \<or> (a = Suc i \<and> b = Suc j)"
    by (auto simp: visited_def)
  have c': "cells_inv seq1 seq2 ?rows ?cols (Suc i) (Suc (Suc j)) (score_matrix st')"
    unfolding cells_inv_def
  proof (intro conjI allI impI)
    show "wf_matrix (score_matrix st') ?rows ?cols"
      using wf_matrix_update [OF wf, of "Suc i"] i by (simp add: st'_def)
  next
    fix a b assume a: "a < ?rows" and b: "b < ?cols"
    have "score_matrix st' ! a ! b = (if a = Suc i \<and> b = Suc j then ?v else ?M ! a ! b)"
      using nth_matrix_update [OF wf _ _ a b, of "Suc i" "Suc j"] i j by (simp add: st'_def)
    also have "\<dots> = (if visited (Suc i) (Suc (Suc j)) a b then score_at seq1 seq2 a b else 0)"
      using cells [OF a b] by (auto simp: vis visited_def)
    finally show "score_matrix st' ! a ! b =
        (if visited (Suc i) (Suc (Suc j)) a b then score_at seq1 seq2 a b else 0)" .
  qed
  from m have m0: "0 \<le> max_score st"
    and mle: "\<And>a b. 1 \<le> a \<Longrightarrow> 1 \<le> b \<Longrightarrow> b < ?cols \<Longrightarrow> visited (Suc i) (Suc j) a b \<Longrightarrow>
        score_at seq1 seq2 a b \<le> max_score st"
    and mpos: "(case max_pos st of
        None \<Rightarrow> max_score st = 0
      | Some (x, y) \<Rightarrow>
          \<exists>a b. x = int a \<and> y = int b \<and> 1 \<le> a \<and> 1 \<le> b \<and> b < ?cols \<and> visited (Suc i) (Suc j) a b \<and>
            score_at seq1 seq2 a b = max_score st \<and> 0 < max_score st \<and>
            (\<forall>a' b'. 1 \<le> a' \<and> 1 \<le> b' \<and> b' < ?cols \<and> visited a b a' b' \<longrightarrow>
                 score_at seq1 seq2 a' b' < max_score st))"
    by (simp_all add: max_inv_def)
  have m': "max_inv seq1 seq2 ?cols (Suc i) (Suc (Suc j)) st'"
  proof (cases "?v > max_score st")
    case True
    then have ms: "max_score st' = ?v" and mp: "max_pos st' = Some (int (Suc i), int (Suc j))"
      by (simp_all add: st'_def st1_def)
    have "\<And>a b. 1 \<le> a \<Longrightarrow> 1 \<le> b \<Longrightarrow> b < ?cols \<Longrightarrow> visited (Suc i) (Suc j) a b \<Longrightarrow>
        score_at seq1 seq2 a b < ?v"
      using mle True by fastforce
    then have lt: "\<forall>a' b'. 1 \<le> a' \<and> 1 \<le> b' \<and> b' < ?cols \<and> visited (Suc i) (Suc j) a' b' \<longrightarrow>
        score_at seq1 seq2 a' b' < ?v"
      by blast
    have le: "\<forall>a b. 1 \<le> a \<and> 1 \<le> b \<and> b < ?cols \<and> visited (Suc i) (Suc (Suc j)) a b \<longrightarrow>
        score_at seq1 seq2 a b \<le> ?v"
      using lt by (auto simp: vis dest: less_imp_le)
    have ex: "\<exists>a b. int (Suc i) = int a \<and> int (Suc j) = int b \<and> 1 \<le> a \<and> 1 \<le> b \<and> b < ?cols \<and>
            visited (Suc i) (Suc (Suc j)) a b \<and>
            score_at seq1 seq2 a b = ?v \<and> 0 < ?v \<and>
            (\<forall>a' b'. 1 \<le> a' \<and> 1 \<le> b' \<and> b' < ?cols \<and> visited a b a' b' \<longrightarrow>
                 score_at seq1 seq2 a' b' < ?v)"
      apply (rule exI [of _ "Suc i"])
      apply (rule exI [of _ "Suc j"])
      using True m0 j lt by (simp add: vis)
    have "0 \<le> ?v" by (rule score_at_nonneg)
    with le ex show ?thesis
      unfolding max_inv_def ms mp by simp
  next
    case False
    then have ms: "max_score st' = max_score st" and mp: "max_pos st' = max_pos st"
      by (simp_all add: st'_def st1_def)
    show ?thesis
      unfolding max_inv_def ms mp
    proof (intro conjI allI impI)
      show "0 \<le> max_score st" by (rule m0)
    next
      fix a b assume "1 \<le> a \<and> 1 \<le> b \<and> b < ?cols \<and> visited (Suc i) (Suc (Suc j)) a b"
      then show "score_at seq1 seq2 a b \<le> max_score st"
        using mle [of a b] False by (auto simp: vis)
    next
      show "case max_pos st of None \<Rightarrow> max_score st = 0
        | Some (x, y) \<Rightarrow>
          \<exists>a b. x = int a \<and> y = int b \<and> 1 \<le> a \<and> 1 \<le> b \<and> b < ?cols \<and>
            visited (Suc i) (Suc (Suc j)) a b \<and>
            score_at seq1 seq2 a b = max_score st \<and> 0 < max_score st \<and>
            (\<forall>a' b'. 1 \<le> a' \<and> 1 \<le> b' \<and> b' < ?cols \<and> visited a b a' b' \<longrightarrow>
                 score_at seq1 seq2 a' b' < max_score st)"
        using mpos by (auto simp: vis split: option.splits)
    qed
  qed
  from run c' m' show ?thesis by blast
qed

lemma fill_row_inv:
  assumes "i < length seq1" and "j \<le> length seq2"
    and "cells_inv seq1 seq2 (Suc (length seq1)) (Suc (length seq2)) (Suc i) (Suc j) (score_matrix st)"
    and "max_inv seq1 seq2 (Suc (length seq2)) (Suc i) (Suc j) st"
  shows "\<exists>st'. fill_row seq1 seq2 (Suc i) [Suc j..<Suc (length seq2)] st = Inr st' \<and>
      cells_inv seq1 seq2 (Suc (length seq1)) (Suc (length seq2)) (Suc i) (Suc (length seq2))
        (score_matrix st') \<and>
      max_inv seq1 seq2 (Suc (length seq2)) (Suc i) (Suc (length seq2)) st'"
  using assms
proof (induction "length seq2 - j" arbitrary: j st)
  case 0
  then have "j = length seq2" by simp
  with 0 show ?case by simp
next
  case (Suc n)
  then have j: "j < length seq2" by simp
  from fill_cell_step [OF Suc.prems(3) Suc.prems(4) Suc.prems(1) j]
  obtain st1 where s: "fill_cell seq1 seq2 (Suc i) (Suc j) st = Inr st1"
    and c: "cells_inv seq1 seq2 (Suc (length seq1)) (Suc (length seq2)) (Suc i) (Suc (Suc j))
        (score_matrix st1)"
    and m: "max_inv seq1 seq2 (Suc (length seq2)) (Suc i) (Suc (Suc j)) st1"
    by blast
  have n: "n = length seq2 - Suc j" using Suc.hyps(2) by simp
  have j': "Suc j \<le> length seq2" using j by simp
  from Suc.hyps(1) [OF n Suc.prems(1) j' c m]
  obtain st' where "fill_row seq1 seq2 (Suc i) [Suc (Suc j)..<Suc (length seq2)] st1 = Inr st'"
    and "cells_inv seq1 seq2 (Suc (length seq1)) (Suc (length seq2)) (Suc i) (Suc (length seq2))
        (score_matrix st')"
    and "max_inv seq1 seq2 (Suc (length seq2)) (Suc i) (Suc (length seq2)) st'"
    by blast
  moreover have "[Suc j..<Suc (length seq2)] = Suc j # [Suc (Suc j)..<Suc (length seq2)]"
    using j by (simp add: upt_conv_Cons)
  ultimately show ?case using s by simp
qed

lemma cells_inv_next_row:
  assumes "cells_inv seq1 seq2 rows cols i cols m"
  shows "cells_inv seq1 seq2 rows cols (Suc i) (Suc 0) m"
proof -
  have "\<And>a b. b < cols \<Longrightarrow>
      (if visited (Suc i) (Suc 0) a b then score_at seq1 seq2 a b else 0) =
      (if visited i cols a b then score_at seq1 seq2 a b else 0)"
    by (auto simp: visited_def)
  with assms show ?thesis by (simp add: cells_inv_def)
qed

lemma max_inv_next_row:
  assumes "max_inv seq1 seq2 cols i cols st"
  shows "max_inv seq1 seq2 cols (Suc i) (Suc 0) st"
proof -
  have v: "\<And>a b. 1 \<le> b \<Longrightarrow> b < cols \<Longrightarrow> visited (Suc i) (Suc 0) a b = visited i cols a b"
    by (auto simp: visited_def)
  show ?thesis
  proof (cases "max_pos st")
    case None
    with assms show ?thesis unfolding max_inv_def by (auto simp: v)
  next
    case (Some p)
    obtain x y where p: "p = (x, y)" by (cases p)
    from assms Some p obtain a b where
      "x = int a" "y = int b" "1 \<le> a" "1 \<le> b" "b < cols" "visited i cols a b"
      "score_at seq1 seq2 a b = max_score st" "0 < max_score st"
      "\<forall>a' b'. 1 \<le> a' \<and> 1 \<le> b' \<and> b' < cols \<and> visited a b a' b' \<longrightarrow>
                 score_at seq1 seq2 a' b' < max_score st"
      unfolding max_inv_def by auto
    then have "\<exists>a b. x = int a \<and> y = int b \<and> 1 \<le> a \<and> 1 \<le> b \<and> b < cols \<and>
          visited (Suc i) (Suc 0) a b \<and>
          score_at seq1 seq2 a b = max_score st \<and> 0 < max_score st \<and>
          (\<forall>a' b'. 1 \<le> a' \<and> 1 \<le> b' \<and> b' < cols \<and> visited a b a' b' \<longrightarrow>
                 score_at seq1 seq2 a' b' < max_score st)"
      using v [of b a] by blast
    moreover from assms have "0 \<le> max_score st"
      and "\<forall>a b. 1 \<le> a \<and> 1 \<le> b \<and> b < cols \<and> visited (Suc i) (Suc 0) a b \<longrightarrow>
          score_at seq1 seq2 a b \<le> max_score st"
      unfolding max_inv_def by (auto simp: v)
    ultimately show ?thesis unfolding max_inv_def Some p by simp
  qed
qed

lemma fill_rows_inv:
  assumes "i \<le> length seq1"
    and "cells_inv seq1 seq2 (Suc (length seq1)) (Suc (length seq2)) (Suc i) (Suc 0) (score_matrix st)"
    and "max_inv seq1 seq2 (Suc (length seq2)) (Suc i) (Suc 0) st"
  shows "\<exists>st'. fill_rows seq1 seq2 (Suc (length seq2)) [Suc i..<Suc (length seq1)] st = Inr st' \<and>
      cells_inv seq1 seq2 (Suc (length seq1)) (Suc (length seq2)) (Suc (length seq1)) (Suc 0)
        (score_matrix st') \<and>
      max_inv seq1 seq2 (Suc (length seq2)) (Suc (length seq1)) (Suc 0) st'"
  using assms
proof (induction "length seq1 - i" arbitrary: i st)
  case 0
  then have "i = length seq1" by simp
  with 0 show ?case by simp
next
  case (Suc n)
  then have i: "i < length seq1" by simp
  from fill_row_inv [OF i _ Suc.prems(2) Suc.prems(3)]
  obtain st1 where s: "fill_row seq1 seq2 (Suc i) [Suc 0..<Suc (length seq2)] st = Inr st1"
    and c: "cells_inv seq1 seq2 (Suc (length seq1)) (Suc (length seq2)) (Suc i) (Suc (length seq2))
        (score_matrix st1)"
    and m: "max_inv seq1 seq2 (Suc (length seq2)) (Suc i) (Suc (length seq2)) st1"
    by blast
  have n: "n = length seq1 - Suc i" using Suc.hyps(2) by simp
  have i': "Suc i \<le> length seq1" using i by simp
  from Suc.hyps(1) [OF n i' cells_inv_next_row [OF c] max_inv_next_row [OF m]]
  obtain st' where
    "fill_rows seq1 seq2 (Suc (length seq2)) [Suc (Suc i)..<Suc (length seq1)] st1 = Inr st'"
    and "cells_inv seq1 seq2 (Suc (length seq1)) (Suc (length seq2)) (Suc (length seq1)) (Suc 0)
        (score_matrix st')"
    and "max_inv seq1 seq2 (Suc (length seq2)) (Suc (length seq1)) (Suc 0) st'"
    by blast
  moreover have "[Suc i..<Suc (length seq1)] = Suc i # [Suc (Suc i)..<Suc (length seq1)]"
    using i by (simp add: upt_conv_Cons)
  ultimately show ?case using s by simp
qed

lemma fill_matrix_inv:
  "\<exists>st. fill_matrix (Suc (length seq1)) (Suc (length seq2)) seq1 seq2 = Inr st \<and>
      cells_inv seq1 seq2 (Suc (length seq1)) (Suc (length seq2)) (Suc (length seq1)) (Suc 0)
        (score_matrix st) \<and>
      max_inv seq1 seq2 (Suc (length seq2)) (Suc (length seq1)) (Suc 0) st"
proof -
  let ?st0 = "\<lparr>score_matrix = replicate (Suc (length seq1)) (replicate (Suc (length seq2)) 0),
      max_score = 0, max_pos = None\<rparr>"
  have c: "cells_inv seq1 seq2 (Suc (length seq1)) (Suc (length seq2)) (Suc 0) (Suc 0)
      (score_matrix ?st0)"
    by (auto simp: cells_inv_def wf_matrix_def visited_def simp del: replicate.simps)
  have m: "max_inv seq1 seq2 (Suc (length seq2)) (Suc 0) (Suc 0) ?st0"
    by (auto simp: max_inv_def visited_def)
  from fill_rows_inv [OF _ c m] show ?thesis
    unfolding fill_matrix_def by simp
qed

section \<open>The matrix that \<open>_create_score_matrix\<close> builds\<close>

lemma fill_matrix_total:
  "\<exists>st. fill_matrix (length seq1 + 1) (length seq2 + 1) seq1 seq2 = Inr st"
  using fill_matrix_inv [of seq1 seq2] by auto

lemma fill_matrix_facts:
  assumes f: "fill_matrix (length seq1 + 1) (length seq2 + 1) seq1 seq2 = Inr st"
  shows "wf_matrix (score_matrix st) (Suc (length seq1)) (Suc (length seq2))"
    and "a \<le> length seq1 \<Longrightarrow> b \<le> length seq2 \<Longrightarrow>
       score_matrix st ! a ! b = score_at seq1 seq2 a b"
    and "a \<le> length seq1 \<Longrightarrow> b \<le> length seq2 \<Longrightarrow>
       score_at seq1 seq2 a b \<le> max_score st"
    and "max_pos st = None \<Longrightarrow> max_score st = 0"
    and "max_pos st = Some (x, y) \<Longrightarrow>
       \<exists>a b. x = int a \<and> y = int b \<and> 1 \<le> a \<and> a \<le> length seq1 \<and> 1 \<le> b \<and> b \<le> length seq2 \<and>
         score_at seq1 seq2 a b = max_score st \<and> 0 < max_score st \<and>
         (\<forall>a' b'. b' \<le> length seq2 \<and> visited a b a' b' \<longrightarrow>
            score_at seq1 seq2 a' b' < max_score st)"
proof -
  from fill_matrix_inv [of seq1 seq2] f have
    c: "cells_inv seq1 seq2 (Suc (length seq1)) (Suc (length seq2)) (Suc (length seq1)) (Suc 0)
        (score_matrix st)"
    and m: "max_inv seq1 seq2 (Suc (length seq2)) (Suc (length seq1)) (Suc 0) st"
    by auto
  show "wf_matrix (score_matrix st) (Suc (length seq1)) (Suc (length seq2))"
    using c by (simp add: cells_inv_def)
  show "score_matrix st ! a ! b = score_at seq1 seq2 a b"
    if "a \<le> length seq1" "b \<le> length seq2"
    using c that by (simp add: cells_inv_def visited_def)
  have m0: "0 \<le> max_score st" using m by (simp add: max_inv_def)
  show "score_at seq1 seq2 a b \<le> max_score st"
    if "a \<le> length seq1" "b \<le> length seq2"
  proof (cases "1 \<le> a \<and> 1 \<le> b")
    case True
    with m that show ?thesis by (simp add: max_inv_def visited_def)
  next
    case False
    then have "a = 0 \<or> b = 0" by auto
    then have "score_at seq1 seq2 a b = 0" by auto
    with m0 show ?thesis by simp
  qed
  show "max_score st = 0" if "max_pos st = None"
    using m that by (simp add: max_inv_def)
  show "\<exists>a b. x = int a \<and> y = int b \<and> 1 \<le> a \<and> a \<le> length seq1 \<and> 1 \<le> b \<and> b \<le> length seq2 \<and>
         score_at seq1 seq2 a b = max_score st \<and> 0 < max_score st \<and>
         (\<forall>a' b'. b' \<le> length seq2 \<and> visited a b a' b' \<longrightarrow>
            score_at seq1 seq2 a' b' < max_score st)"
    if "max_pos st = Some (x, y)"
  proof -
    from m that obtain a b where ab: "x = int a" "y = int b" "1 \<le> a" "1 \<le> b"
      "b < Suc (length seq2)" "visited (Suc (length seq1)) (Suc 0) a b"
      "score_at seq1 seq2 a b = max_score st" "0 < max_score st"
      and first: "\<forall>a' b'. 1 \<le> a' \<and> 1 \<le> b' \<and> b' < Suc (length seq2) \<and> visited a b a' b' \<longrightarrow>
                 score_at seq1 seq2 a' b' < max_score st"
      unfolding max_inv_def by auto
    have "score_at seq1 seq2 a' b' < max_score st"
      if "b' \<le> length seq2" "visited a b a' b'" for a' b'
    proof (cases "1 \<le> a' \<and> 1 \<le> b'")
      case True
      with first that show ?thesis by simp
    next
      case False
      then have "a' = 0 \<or> b' = 0" by auto
      then have "score_at seq1 seq2 a' b' = 0" by auto
      with ab(8) show ?thesis by simp
    qed
    moreover have "a \<le> length seq1" using ab(4,6) by (auto simp: visited_def)
    ultimately show ?thesis using ab by auto
  qed
qed

text \<open>
  Claim C1. For sequences of lengths \<open>m\<close> and \<open>n\<close>, the matrix that
  \<open>_create_score_matrix\<close> builds (and returns, when it returns) has \<open>m + 1\<close> rows of
  \<open>n + 1\<close> cells, row 0 and column 0 are zero, and every other cell is the maximum of
  0, the upper-left neighbour plus the similarity (2 on equal symbols, -1 otherwise), the
  upper neighbour minus 1 and the left neighbour minus 1.
\<close>

theorem score_matrix_recurrence:
  "\<exists>st. fill_matrix (length seq1 + 1) (length seq2 + 1) seq1 seq2 = Inr st
     \<and> (\<forall>m p. create_score_matrix (length seq1 + 1) (length seq2 + 1) seq1 seq2 = Inr (m, p)
            \<longrightarrow> m = score_matrix st)
     \<and> length (score_matrix st) = length seq1 + 1
     \<and> (\<forall>i\<le>length seq1. length (score_matrix st ! i) = length seq2 + 1)
     \<and> (\<forall>j\<le>length seq2. score_matrix st ! 0 ! j = 0)
     \<and> (\<forall>i\<le>length seq1. score_matrix st ! i ! 0 = 0)
     \<and> (\<forall>i j. 1 \<le> i \<and> i \<le> length seq1 \<and> 1 \<le> j \<and> j \<le> length seq2 \<longrightarrow>
          score_matrix st ! i ! j =
            max 0 (max (score_matrix st ! (i - 1) ! (j - 1)
                          + (if seq1 ! (i - 1) = seq2 ! (j - 1) then 2 else - 1))
                  (max (score_matrix st ! (i - 1) ! j + (- 1))
                       (score_matrix st ! i ! (j - 1) + (- 1)))))"
proof -
  obtain st where f: "fill_matrix (length seq1 + 1) (length seq2 + 1) seq1 seq2 = Inr st"
    using fill_matrix_total by blast
  note wf = fill_matrix_facts(1) [OF f] and cells = fill_matrix_facts(2) [OF f]
  have 1: "\<forall>m p. create_score_matrix (length seq1 + 1) (length seq2 + 1) seq1 seq2 = Inr (m, p)
            \<longrightarrow> m = score_matrix st"
    using f by (auto simp: create_score_matrix_def split: option.splits)
  have 2: "length (score_matrix st) = length seq1 + 1"
    using wf by (simp add: wf_matrix_def)
  have 3: "\<forall>i\<le>length seq1. length (score_matrix st ! i) = length seq2 + 1"
    using wf by (simp add: wf_matrix_def)
  have 4: "\<forall>j\<le>length seq2. score_matrix st ! 0 ! j = 0"
    using cells [of 0] by simp
  have 5: "\<forall>i\<le>length seq1. score_matrix st ! i ! 0 = 0"
    using cells [of _ 0] by simp
  have 6: "score_matrix st ! i ! j =
            max 0 (max (score_matrix st ! (i - 1) ! (j - 1)
                          + (if seq1 ! (i - 1) = seq2 ! (j - 1) then 2 else - 1))
                  (max (score_matrix st ! (i - 1) ! j + (- 1))
                       (score_matrix st ! i ! (j - 1) + (- 1))))"
    if "1 \<le> i \<and> i \<le> length seq1 \<and> 1 \<le> j \<and> j \<le> length seq2" for i j
  proof -
    from that obtain i' j' where ij: "i = Suc i'" "j = Suc j'"
      by (cases i; cases j) auto
    with that have b: "i' \<le> length seq1" "j' \<le> length seq2" "Suc i' \<le> length seq1"
      "Suc j' \<le> length seq2" by auto
    show ?thesis
      unfolding ij
      by (simp add: cells b score_at.simps(3) match_def mismatch_def gap_def)
  qed
  from f 1 2 3 4 5 6 show ?thesis by blast
qed

theorem score_matrix_recurrence_witness:
  "\<exists>st. fill_matrix (length ''TAG'' + 1) (length ''GAG'' + 1) ''TAG'' ''GAG'' = Inr st
     \<and> create_score_matrix (length ''TAG'' + 1) (length ''GAG'' + 1) ''TAG'' ''GAG''
         = Inr (score_matrix st, (3, 3))
     \<and> score_matrix st = [[0, 0, 0, 0], [0, 0, 0, 0], [0, 0, 2, 1], [0, 2, 1, 4]]
     \<and> score_matrix st ! 3 ! 3 =
         max 0 (max (score_matrix st ! 2 ! 2 + 2)
                    (max (score_matrix st ! 2 ! 3 + (- 1)) (score_matrix st ! 3 ! 2 + (- 1))))"
proof -
  have e: "create_score_matrix (length ''TAG'' + 1) (length ''GAG'' + 1) ''TAG'' ''GAG''
      = Inr ([[0, 0, 0, 0], [0, 0, 0, 0], [0, 0, 2, 1], [0, 2, 1, 4]], (3, 3))"
    by code_simp
  from score_matrix_recurrence [of "''TAG''" "''GAG''"] obtain st where
    f: "fill_matrix (length ''TAG'' + 1) (length ''GAG'' + 1) ''TAG'' ''GAG'' = Inr st"
    and c: "\<forall>m p. create_score_matrix (length ''TAG'' + 1) (length ''GAG'' + 1) ''TAG'' ''GAG''
        = Inr (m, p) \<longrightarrow> m = score_matrix st"
    by blast
  from c e have m: "score_matrix st = [[0, 0, 0, 0], [0, 0, 0, 0], [0, 0, 2, 1], [0, 2, 1, 4]]"
    by simp
  from f e m show ?thesis
    by (intro exI [of _ st]) simp
qed

section \<open>The endpoint\<close>

lemma fill_cell_max_pos:
  assumes "fill_cell seq1 seq2 i j st0 = Inr st1" and "max_pos st1 \<noteq> max_pos st0"
  shows "max_score st0 < max_score st1 \<and> max_pos st1 = Some (int i, int j)"
  using assms by (auto simp: fill_cell_def ebind_eq_Inr Let_def split: if_splits)

text \<open>
  Claim C2. When the matrix built for two sequences holds a positive value,
  \<open>_create_score_matrix\<close> returns it with an endpoint \<open>(i, j)\<close> inside the matrix,
  off the border, whose cell holds the greatest value of the matrix, and every cell before
  \<open>(i, j)\<close> in the row-major scan is strictly smaller: the endpoint is the first cell
  that holds the maximum. The scan moves the recorded endpoint only at a cell whose score
  exceeds the maximum recorded so far.
\<close>

theorem endpoint_first_maximum:
  assumes f: "fill_matrix (length seq1 + 1) (length seq2 + 1) seq1 seq2 = Inr st"
    and pos: "\<exists>a\<le>length seq1. \<exists>b\<le>length seq2. 0 < score_matrix st ! a ! b"
  shows "(\<exists>i j. create_score_matrix (length seq1 + 1) (length seq2 + 1) seq1 seq2
                  = Inr (score_matrix st, (int i, int j))
            \<and> 1 \<le> i \<and> i \<le> length seq1 \<and> 1 \<le> j \<and> j \<le> length seq2
            \<and> (\<forall>a\<le>length seq1. \<forall>b\<le>length seq2.
                  score_matrix st ! a ! b \<le> score_matrix st ! i ! j)
            \<and> (\<forall>a\<le>length seq1. \<forall>b\<le>length seq2. a < i \<or> (a = i \<and> b < j) \<longrightarrow>
                  score_matrix st ! a ! b < score_matrix st ! i ! j))
       \<and> (\<forall>i j st0 st1. fill_cell seq1 seq2 i j st0 = Inr st1 \<and> max_pos st1 \<noteq> max_pos st0 \<longrightarrow>
            max_score st0 < max_score st1 \<and> max_pos st1 = Some (int i, int j))"
proof (rule conjI)
  note cells = fill_matrix_facts(2) [OF f] and le = fill_matrix_facts(3) [OF f]
    and none = fill_matrix_facts(4) [OF f] and some = fill_matrix_facts(5) [OF f]
  from pos obtain a0 b0 where ab0: "a0 \<le> length seq1" "b0 \<le> length seq2"
    "0 < score_matrix st ! a0 ! b0" by blast
  with cells [of a0 b0] le [of a0 b0] have "0 < max_score st" by simp
  with none obtain p where "max_pos st = Some p" by (cases "max_pos st") auto
  moreover obtain x y where "p = (x, y)" by (cases p)
  ultimately have mp: "max_pos st = Some (x, y)" by simp
  from some [OF mp] obtain i j where ij: "x = int i" "y = int j" "1 \<le> i" "i \<le> length seq1"
    "1 \<le> j" "j \<le> length seq2" "score_at seq1 seq2 i j = max_score st"
    and first: "\<forall>a' b'. b' \<le> length seq2 \<and> visited i j a' b' \<longrightarrow>
            score_at seq1 seq2 a' b' < max_score st"
    by blast
  have v: "score_matrix st ! i ! j = max_score st" using cells [of i j] ij by simp
  have 1: "create_score_matrix (length seq1 + 1) (length seq2 + 1) seq1 seq2
                  = Inr (score_matrix st, (int i, int j))"
    using f mp ij by (simp add: create_score_matrix_def)
  have 2: "\<forall>a\<le>length seq1. \<forall>b\<le>length seq2. score_matrix st ! a ! b \<le> score_matrix st ! i ! j"
    using cells le v by simp
  have 3: "\<forall>a\<le>length seq1. \<forall>b\<le>length seq2. a < i \<or> (a = i \<and> b < j) \<longrightarrow>
                  score_matrix st ! a ! b < score_matrix st ! i ! j"
    using cells first v by (simp add: visited_def)
  from 1 2 3 ij show "\<exists>i j. create_score_matrix (length seq1 + 1) (length seq2 + 1) seq1 seq2
                  = Inr (score_matrix st, (int i, int j))
            \<and> 1 \<le> i \<and> i \<le> length seq1 \<and> 1 \<le> j \<and> j \<le> length seq2
            \<and> (\<forall>a\<le>length seq1. \<forall>b\<le>length seq2.
                  score_matrix st ! a ! b \<le> score_matrix st ! i ! j)
            \<and> (\<forall>a\<le>length seq1. \<forall>b\<le>length seq2. a < i \<or> (a = i \<and> b < j) \<longrightarrow>
                  score_matrix st ! a ! b < score_matrix st ! i ! j)"
    by blast
next
  show "\<forall>i j st0 st1. fill_cell seq1 seq2 i j st0 = Inr st1 \<and> max_pos st1 \<noteq> max_pos st0 \<longrightarrow>
            max_score st0 < max_score st1 \<and> max_pos st1 = Some (int i, int j)"
    using fill_cell_max_pos by blast
qed

theorem endpoint_first_maximum_witness:
  "create_score_matrix (length ''TAG'' + 1) (length ''GAG'' + 1) ''TAG'' ''GAG''
       = Inr ([[0, 0, 0, 0], [0, 0, 0, 0], [0, 0, 2, 1], [0, 2, 1, 4]], (3, 3))
   \<and> [[0, 0, 0, 0], [0, 0, 0, 0], [0, 0, 2, 1], [0, 2, 1, 4 :: int]] ! 2 ! 2
         \<le> [[0, 0, 0, 0], [0, 0, 0, 0], [0, 0, 2, 1], [0, 2, 1, 4]] ! 3 ! 3"
proof -
  let ?M = "[[0, 0, 0, 0], [0, 0, 0, 0], [0, 0, 2, 1], [0, 2, 1, 4 :: int]]"
  let ?c = "create_score_matrix (length ''TAG'' + 1) (length ''GAG'' + 1) ''TAG'' ''GAG''"
  have e: "?c = Inr (?M, (3, 3))"
    by code_simp
  obtain st where
    f: "fill_matrix (length ''TAG'' + 1) (length ''GAG'' + 1) ''TAG'' ''GAG'' = Inr st"
    using fill_matrix_total [of "''TAG''" "''GAG''"] ..
  have m: "score_matrix st = ?M"
    using e unfolding create_score_matrix_def f ebind_simps
    by (cases "max_pos st") simp_all
  have p: "0 < score_matrix st ! 3 ! 3" unfolding m by simp
  have pos: "\<exists>a\<le>length ''TAG''. \<exists>b\<le>length ''GAG''. 0 < score_matrix st ! a ! b"
    apply (rule exI [of _ 3])
    apply (rule conjI)
     apply simp
    apply (rule exI [of _ 3])
    apply (rule conjI)
     apply simp
    apply (rule p)
    done
  let ?P = "\<lambda>i j. ?c = Inr (score_matrix st, (int i, int j))
            \<and> 1 \<le> i \<and> i \<le> length ''TAG'' \<and> 1 \<le> j \<and> j \<le> length ''GAG''
            \<and> (\<forall>a\<le>length ''TAG''. \<forall>b\<le>length ''GAG''.
                  score_matrix st ! a ! b \<le> score_matrix st ! i ! j)
            \<and> (\<forall>a\<le>length ''TAG''. \<forall>b\<le>length ''GAG''. a < i \<or> (a = i \<and> b < j) \<longrightarrow>
                  score_matrix st ! a ! b < score_matrix st ! i ! j)"
  have "\<exists>i j. ?P i j"
    by (rule conjunct1 [OF endpoint_first_maximum [OF f pos]])
  then obtain i where "\<exists>j. ?P i j" ..
  then obtain j where r: "?P i j" ..
  from r have c: "?c = Inr (score_matrix st, (int i, int j))"
    by (rule conjunct1)
  from r have le: "\<forall>a\<le>length ''TAG''. \<forall>b\<le>length ''GAG''.
                  score_matrix st ! a ! b \<le> score_matrix st ! i ! j"
    by (elim conjE)
  from c have "int i = 3" "int j = 3" unfolding e by simp_all
  then have ij: "i = 3" "j = 3" by linarith+
  have "2 \<le> length ''TAG''" "2 \<le> length ''GAG''" by simp_all
  with le have "score_matrix st ! 2 ! 2 \<le> score_matrix st ! i ! j" by simp
  then have "?M ! 2 ! 2 \<le> ?M ! 3 ! 3"
    unfolding ij m .
  with e show ?thesis by (rule conjI)
qed

lemma in_concat_wf:
  assumes "wf_matrix m rows cols"
  shows "v \<in> set (concat m) \<longleftrightarrow> (\<exists>a<rows. \<exists>b<cols. v = m ! a ! b)"
proof
  assume "v \<in> set (concat m)"
  then obtain row where r: "row \<in> set m" and v: "v \<in> set row" by auto
  from r obtain a where a: "a < length m" "row = m ! a" by (auto simp: in_set_conv_nth)
  from v obtain b where b: "b < length row" "v = row ! b" by (auto simp: in_set_conv_nth)
  from assms r a b show "\<exists>a<rows. \<exists>b<cols. v = m ! a ! b"
    by (auto simp: wf_matrix_def)
next
  assume "\<exists>a<rows. \<exists>b<cols. v = m ! a ! b"
  then obtain a b where ab: "a < rows" "b < cols" "v = m ! a ! b" by blast
  with assms have "m ! a \<in> set m" "v \<in> set (m ! a)"
    by (auto simp: wf_matrix_def)
  then show "v \<in> set (concat m)" by auto
qed

section \<open>No positive score\<close>

lemma max_pos_None_iff:
  assumes f: "fill_matrix (length seq1 + 1) (length seq2 + 1) seq1 seq2 = Inr st"
  shows "max_pos st = None \<longleftrightarrow>
    (\<forall>a\<le>length seq1. \<forall>b\<le>length seq2. score_matrix st ! a ! b = 0)"
proof
  assume n: "max_pos st = None"
  show "\<forall>a\<le>length seq1. \<forall>b\<le>length seq2. score_matrix st ! a ! b = 0"
  proof (intro allI impI)
    fix a b assume ab: "a \<le> length seq1" "b \<le> length seq2"
    from fill_matrix_facts(3) [OF f ab] fill_matrix_facts(4) [OF f n]
    have "score_at seq1 seq2 a b \<le> 0" by simp
    with score_at_nonneg [of seq1 seq2 a b] fill_matrix_facts(2) [OF f ab]
    show "score_matrix st ! a ! b = 0" by simp
  qed
next
  assume z: "\<forall>a\<le>length seq1. \<forall>b\<le>length seq2. score_matrix st ! a ! b = 0"
  show "max_pos st = None"
  proof (cases "max_pos st")
    case None
    then show ?thesis .
  next
    case (Some p)
    obtain x y where "p = (x, y)" by (cases p)
    with Some have "max_pos st = Some (x, y)" by simp
    from fill_matrix_facts(5) [OF f this] obtain a b where
      ab: "a \<le> length seq1" "b \<le> length seq2" "score_at seq1 seq2 a b = max_score st"
      "0 < max_score st" by blast
    with fill_matrix_facts(2) [OF f ab(1,2)] z show ?thesis by simp
  qed
qed

lemma create_score_matrix_None:
  assumes f: "fill_matrix (length seq1 + 1) (length seq2 + 1) seq1 seq2 = Inr st"
    and n: "max_pos st = None"
  shows "align seq1 seq2
    = Inl (AssertionError ''the x, y position with the highest score was not found'')"
proof -
  have "create_score_matrix (length seq1 + 1) (length seq2 + 1) seq1 seq2
    = Inl (AssertionError ''the x, y position with the highest score was not found'')"
    unfolding create_score_matrix_def f ebind_simps n by simp
  then show ?thesis unfolding align_def Let_def by simp
qed

text \<open>
  Claim C4, amended. \<open>align("", "x")\<close>, \<open>align("x", "")\<close> and every call whose
  score matrix is all zero fail with the \<open>AssertionError\<close> that
  \<open>_create_score_matrix\<close> raises (\<open>the x, y position with the highest score was not
  found\<close>): the caller sees the failed internal assertion, and no alignment result.
\<close>

theorem all_zero_matrix_assertion:
  assumes "seq1 = [] \<or> seq2 = []
    \<or> (\<exists>st. fill_matrix (length seq1 + 1) (length seq2 + 1) seq1 seq2 = Inr st
          \<and> (\<forall>a\<le>length seq1. \<forall>b\<le>length seq2. score_matrix st ! a ! b = 0))"
  shows "align seq1 seq2
    = Inl (AssertionError ''the x, y position with the highest score was not found'')"
proof -
  obtain st where f: "fill_matrix (length seq1 + 1) (length seq2 + 1) seq1 seq2 = Inr st"
    using fill_matrix_total by blast
  note cells = fill_matrix_facts(2) [OF f]
  have "\<forall>a\<le>length seq1. \<forall>b\<le>length seq2. score_matrix st ! a ! b = 0"
    using assms
  proof (elim disjE)
    assume "seq1 = []"
    then show ?thesis using cells by simp
  next
    assume "seq2 = []"
    then show ?thesis using cells by simp
  next
    assume "\<exists>st. fill_matrix (length seq1 + 1) (length seq2 + 1) seq1 seq2 = Inr st
          \<and> (\<forall>a\<le>length seq1. \<forall>b\<le>length seq2. score_matrix st ! a ! b = 0)"
    with f show ?thesis by auto
  qed
  then have "max_pos st = None" by (simp add: max_pos_None_iff [OF f])
  with f show ?thesis by (rule create_score_matrix_None)
qed

theorem all_zero_matrix_assertion_witness:
  "align '''' ''x''
     = Inl (AssertionError ''the x, y position with the highest score was not found'')"
  by (rule all_zero_matrix_assertion [of "''''" "''x''"]) simp

text \<open>
  Claim C4 as stated fails: on an empty sequence \<open>align\<close> raises the internal
  \<open>AssertionError\<close>, not a dedicated result for the absence of an alignment.
\<close>

theorem align_empty_fails_assertion:
  "align '''' ''x''
     = Inl (AssertionError ''the x, y position with the highest score was not found'')
   \<and> align ''x'' ''''
     = Inl (AssertionError ''the x, y position with the highest score was not found'')"
  by code_simp

section \<open>The score that \<open>align\<close> returns\<close>

lemma align_Inr_D:
  "align seq1 seq2 = Inr (a1, a2, score) \<Longrightarrow>
   \<exists>m x y. create_score_matrix (length seq1 + 1) (length seq2 + 1) seq1 seq2 = Inr (m, (x, y))
     \<and> py_index2 m x y = Inr score \<and> traceback m (x, y) seq1 seq2 = Inr (a1, a2)"
  unfolding align_def Let_def
  by (auto simp: ebind_eq_Inr split: prod.splits if_splits)

lemma align_score:
  assumes f: "fill_matrix (length seq1 + 1) (length seq2 + 1) seq1 seq2 = Inr st"
    and a: "align seq1 seq2 = Inr (a1, a2, score)"
  shows "score = max_score st"
    and "\<exists>a\<le>length seq1. \<exists>b\<le>length seq2. score = score_matrix st ! a ! b"
proof -
  from align_Inr_D [OF a] obtain m x y where
    c: "create_score_matrix (length seq1 + 1) (length seq2 + 1) seq1 seq2 = Inr (m, (x, y))"
    and s: "py_index2 m x y = Inr score"
    by blast
  from c have m: "m = score_matrix st" and mp: "max_pos st = Some (x, y)"
    unfolding create_score_matrix_def f ebind_simps by (auto split: option.splits)
  from fill_matrix_facts(5) [OF f mp] obtain a b where ab: "x = int a" "y = int b"
    "a \<le> length seq1" "b \<le> length seq2" "score_at seq1 seq2 a b = max_score st" by blast
  have "py_index2 m x y = Inr (m ! a ! b)"
    unfolding m ab(1,2) using py_index2_nat [OF fill_matrix_facts(1) [OF f], of a b] ab(3,4)
    by simp
  with s have v: "score = score_matrix st ! a ! b" by (simp add: m)
  with fill_matrix_facts(2) [OF f ab(3,4)] ab(5) show "score = max_score st" by simp
  from v ab(3,4) show "\<exists>a\<le>length seq1. \<exists>b\<le>length seq2. score = score_matrix st ! a ! b"
    by blast
qed

text \<open>
  Claim C5. Every cell of the matrix built for two sequences is at least 0, and the score
  that \<open>align\<close> returns is the greatest value in the matrix.
\<close>

theorem cells_nonneg_score_is_max:
  "\<exists>st. fill_matrix (length seq1 + 1) (length seq2 + 1) seq1 seq2 = Inr st
     \<and> (\<forall>row\<in>set (score_matrix st). \<forall>v\<in>set row. 0 \<le> v)
     \<and> (\<forall>a1 a2 score. align seq1 seq2 = Inr (a1, a2, score) \<longrightarrow>
          score = Max (set (concat (score_matrix st))))"
proof -
  obtain st where f: "fill_matrix (length seq1 + 1) (length seq2 + 1) seq1 seq2 = Inr st"
    using fill_matrix_total by blast
  note wf = fill_matrix_facts(1) [OF f] and cells = fill_matrix_facts(2) [OF f]
    and le = fill_matrix_facts(3) [OF f]
  have mem: "v \<in> set (concat (score_matrix st)) \<longleftrightarrow>
      (\<exists>a\<le>length seq1. \<exists>b\<le>length seq2. v = score_matrix st ! a ! b)" for v
    unfolding in_concat_wf [OF wf] by (simp add: less_Suc_eq_le)
  have nonneg: "\<forall>row\<in>set (score_matrix st). \<forall>v\<in>set row. 0 \<le> v"
  proof (intro ballI)
    fix row v assume "row \<in> set (score_matrix st)" "v \<in> set row"
    then have "v \<in> set (concat (score_matrix st))" by auto
    then obtain a b where "a \<le> length seq1" "b \<le> length seq2" "v = score_matrix st ! a ! b"
      unfolding mem by blast
    with cells [of a b] score_at_nonneg [of seq1 seq2 a b] show "0 \<le> v" by simp
  qed
  have mx: "score = Max (set (concat (score_matrix st)))"
    if a: "align seq1 seq2 = Inr (a1, a2, score)" for a1 a2 score
  proof (rule Max_eqI [symmetric])
    show "finite (set (concat (score_matrix st)))" by simp
  next
    fix v assume "v \<in> set (concat (score_matrix st))"
    then obtain a b where "a \<le> length seq1" "b \<le> length seq2" "v = score_matrix st ! a ! b"
      unfolding mem by blast
    with cells [of a b] le [of a b] align_score(1) [OF f a] show "v \<le> score" by simp
  next
    from align_score(2) [OF f a] show "score \<in> set (concat (score_matrix st))"
      unfolding mem .
  qed
  from f nonneg mx show ?thesis by blast
qed

theorem cells_nonneg_score_is_max_witness:
  "align ''TAG'' ''GAG'' = Inr (''AG'', ''AG'', 4)
   \<and> (4 :: int) = Max (set (concat [[0, 0, 0, 0], [0, 0, 0, 0], [0, 0, 2, 1], [0, 2, 1, 4]]))"
proof -
  let ?M = "[[0, 0, 0, 0], [0, 0, 0, 0], [0, 0, 2, 1], [0, 2, 1, 4 :: int]]"
  have a: "align ''TAG'' ''GAG'' = Inr (''AG'', ''AG'', 4)"
    by code_simp
  have e: "create_score_matrix (length ''TAG'' + 1) (length ''GAG'' + 1) ''TAG'' ''GAG''
      = Inr (?M, (3, 3))"
    by code_simp
  from cells_nonneg_score_is_max [of "''TAG''" "''GAG''"] obtain st where
    r: "fill_matrix (length ''TAG'' + 1) (length ''GAG'' + 1) ''TAG'' ''GAG'' = Inr st
     \<and> (\<forall>row\<in>set (score_matrix st). \<forall>v\<in>set row. 0 \<le> v)
     \<and> (\<forall>a1 a2 score. align ''TAG'' ''GAG'' = Inr (a1, a2, score) \<longrightarrow>
          score = Max (set (concat (score_matrix st))))" ..
  from r have f: "fill_matrix (length ''TAG'' + 1) (length ''GAG'' + 1) ''TAG'' ''GAG'' = Inr st"
    by (rule conjunct1)
  have m: "score_matrix st = ?M"
    using e unfolding create_score_matrix_def f ebind_simps
    by (cases "max_pos st") simp_all
  note mx = r [THEN conjunct2, THEN conjunct2, rule_format, OF a]
  from mx have "4 = Max (set (concat ?M))" unfolding m .
  with a show ?thesis by (rule conjI)
qed

section \<open>The errors of the traceback\<close>

lemma ebind_eq_Inl: "ebind m f = Inl e \<longleftrightarrow> m = Inl e \<or> (\<exists>v. m = Inr v \<and> f v = Inl e)"
  by (cases m) simp_all

lemma py_index_Inl: "py_index xs i = Inl e \<Longrightarrow> e = IndexError"
  by (simp add: py_index_def split: if_splits)

lemma py_index2_Inl: "py_index2 m i j = Inl e \<Longrightarrow> e = IndexError"
  by (auto simp: py_index2_def ebind_eq_Inl dest: py_index_Inl)

lemma next_move_Inl:
  assumes "next_move m x y = Inl e"
  shows "e = IndexError"
proof -
  consider (a) "py_index2 m (x - 1) (y - 1) = Inl IndexError"
    | (b) d where "py_index2 m (x - 1) (y - 1) = Inr d"
        "py_index2 m (x - 1) y = Inl IndexError"
    | (c) d u where "py_index2 m (x - 1) (y - 1) = Inr d"
        "py_index2 m (x - 1) y = Inr u" "py_index2 m x (y - 1) = Inl IndexError"
    | (d) d u l where "py_index2 m (x - 1) (y - 1) = Inr d"
        "py_index2 m (x - 1) y = Inr u" "py_index2 m x (y - 1) = Inr l"
    using py_index2_cases [of m "x - 1" "y - 1"] py_index2_cases [of m "x - 1" y]
      py_index2_cases [of m x "y - 1"] by blast
  then show ?thesis
  proof cases
    case d
    have "d \<ge> u \<and> d \<ge> l \<or> u > d \<and> u \<ge> l \<or> l > d \<and> l > u" by linarith
    with d assms show ?thesis by (auto simp: next_move_def)
  qed (use assms in \<open>simp_all add: next_move_def\<close>)
qed

lemma loop_body_Inl:
  assumes "loop_body m s1 s2 st = Inl e" and "tb_move st \<noteq> END"
  shows "e = IndexError"
  using assms unfolding loop_body_def ebind_eq_Inl
  by (cases "tb_move st") (auto simp: ebind_eq_Inl dest: py_index_Inl next_move_Inl)

lemma traceback_loop_Inl:
  "traceback_loop m s1 s2 st = Inl e \<Longrightarrow> e = IndexError"
proof (induction m s1 s2 st rule: traceback_loop.induct)
  case (1 m s1 s2 st)
  show ?case
  proof (cases "tb_move st = END")
    case True
    with "1.prems" show ?thesis by (simp add: traceback_loop.simps)
  next
    case False
    with "1.prems" have "ebind (loop_body m s1 s2 st) (traceback_loop m s1 s2) = Inl e"
      by (subst (asm) traceback_loop.simps) simp
    then consider "loop_body m s1 s2 st = Inl e"
      | st1 where "loop_body m s1 s2 st = Inr st1" "traceback_loop m s1 s2 st1 = Inl e"
      unfolding ebind_eq_Inl by blast
    then show ?thesis
    proof cases
      case 1
      then show ?thesis using False by (rule loop_body_Inl)
    next
      case 2
      then show ?thesis using "1.IH" [OF False] by blast
    qed
  qed
qed

lemma traceback_Inl:
  assumes "traceback m p s1 s2 = Inl e"
  shows "e = IndexError"
proof -
  obtain x y where p: "p = (x, y)" by (cases p)
  from assms show ?thesis
    unfolding traceback_def p prod.case ebind_eq_Inl
    by (auto dest: next_move_Inl traceback_loop_Inl py_index_Inl)
qed

section \<open>The aligned sequences have the same length\<close>

lemma loop_body_lengths:
  assumes "loop_body m s1 s2 st = Inr st'"
  shows "length (tb_aligned_seq1 st') = Suc (length (tb_aligned_seq1 st))"
    and "length (tb_aligned_seq2 st') = Suc (length (tb_aligned_seq2 st))"
  using assms by (auto simp: loop_body_def ebind_eq_Inr split: move.splits)

lemma traceback_loop_lengths:
  "traceback_loop m s1 s2 st = Inr st' \<Longrightarrow>
   length (tb_aligned_seq1 st) = length (tb_aligned_seq2 st) \<Longrightarrow>
   length (tb_aligned_seq1 st') = length (tb_aligned_seq2 st')"
proof (induction m s1 s2 st rule: traceback_loop.induct)
  case (1 m s1 s2 st)
  show ?case
  proof (cases "tb_move st = END")
    case True
    with "1.prems" show ?thesis by (simp add: traceback_loop.simps)
  next
    case False
    with "1.prems"(1) obtain st1 where b: "loop_body m s1 s2 st = Inr st1"
      and l: "traceback_loop m s1 s2 st1 = Inr st'"
      by (subst (asm) traceback_loop.simps) (auto simp: ebind_eq_Inr)
    from loop_body_lengths [OF b] "1.prems"(2)
    have "length (tb_aligned_seq1 st1) = length (tb_aligned_seq2 st1)" by simp
    with "1.IH" [OF False b l] show ?thesis .
  qed
qed

lemma traceback_lengths:
  assumes "traceback m p s1 s2 = Inr (a1, a2)"
  shows "length a1 = length a2"
proof -
  obtain x y where p: "p = (x, y)" by (cases p)
  from assms obtain mv st c1 c2 where
    l: "traceback_loop m s1 s2
          \<lparr>tb_x = x, tb_y = y, tb_aligned_seq1 = [], tb_aligned_seq2 = [], tb_move = mv\<rparr> = Inr st"
    and a: "a1 = rev (tb_aligned_seq1 st @ [c1])" "a2 = rev (tb_aligned_seq2 st @ [c2])"
    by (auto simp: traceback_def p ebind_eq_Inr)
  from traceback_loop_lengths [OF l] a show ?thesis by simp
qed

lemma align_Inl:
  assumes "align seq1 seq2 = Inl e"
  shows "e = IndexError
    \<or> e = AssertionError ''the x, y position with the highest score was not found''"
proof (cases "create_score_matrix (length seq1 + 1) (length seq2 + 1) seq1 seq2")
  case (Inl e')
  obtain st where f: "fill_matrix (length seq1 + 1) (length seq2 + 1) seq1 seq2 = Inr st"
    using fill_matrix_total by blast
  from Inl have "e' = AssertionError ''the x, y position with the highest score was not found''"
    unfolding create_score_matrix_def f ebind_simps by (cases "max_pos st") simp_all
  moreover from assms Inl have "e = e'" unfolding align_def Let_def by simp
  ultimately show ?thesis by simp
next
  case (Inr r)
  obtain m x y where r: "r = (m, (x, y))" by (cases r) auto
  show ?thesis
  proof (cases "py_index2 m x y")
    case (Inl e')
    with assms Inr r have "e = e'" unfolding align_def Let_def by simp
    with Inl show ?thesis by (simp add: py_index2_Inl)
  next
    case score: (Inr score)
    show ?thesis
    proof (cases "traceback m (x, y) seq1 seq2")
      case (Inl e')
      with assms Inr r score have "e = e'" unfolding align_def Let_def by simp
      with Inl show ?thesis by (simp add: traceback_Inl)
    next
      case tb: (Inr t)
      obtain a1 a2 where t: "t = (a1, a2)" by (cases t)
      from tb t have "length a1 = length a2" by (simp add: traceback_lengths)
      with assms Inr r score tb t show ?thesis unfolding align_def Let_def by simp
    qed
  qed
qed

text \<open>
  Claim C6. The two aligned sequences that \<open>_traceback\<close> returns have the same
  length, on every matrix and start position; so have the two that \<open>align\<close> returns,
  and the assertion of \<open>align\<close> on the two lengths never fails.
\<close>

theorem aligned_lengths_equal:
  "(traceback matrix start_pos seq1 seq2 = Inr (a1, a2) \<longrightarrow> length a1 = length a2)
   \<and> (align seq1 seq2 = Inr (seq1_aligned, seq2_aligned, score) \<longrightarrow>
        length seq1_aligned = length seq2_aligned)
   \<and> align seq1 seq2 \<noteq> Inl (AssertionError ''aligned strings are not the same size'')"
proof (intro conjI impI)
  assume "traceback matrix start_pos seq1 seq2 = Inr (a1, a2)"
  then show "length a1 = length a2" by (rule traceback_lengths)
next
  assume "align seq1 seq2 = Inr (seq1_aligned, seq2_aligned, score)"
  from align_Inr_D [OF this] show "length seq1_aligned = length seq2_aligned"
    using traceback_lengths by blast
next
  show "align seq1 seq2 \<noteq> Inl (AssertionError ''aligned strings are not the same size'')"
    using align_Inl [of seq1 seq2 "AssertionError ''aligned strings are not the same size''"]
    by auto
qed

theorem aligned_lengths_equal_witness:
  "align ''TAG'' ''GAG'' = Inr (''AG'', ''AG'', 4) \<and> length ''AG'' = length ''AG''"
proof -
  have a: "align ''TAG'' ''GAG'' = Inr (''AG'', ''AG'', 4)"
    by code_simp
  note r = aligned_lengths_equal [of _ _ "''TAG''" "''GAG''" _ _ "''AG''" "''AG''" 4]
  from r [THEN conjunct2, THEN conjunct1, rule_format, OF a]
  have "length ''AG'' = length ''AG''" .
  with a show ?thesis by (rule conjI)
qed

section \<open>The traceback on a matrix with a zero border\<close>

text \<open>
  A matrix of \<open>r + 1\<close> rows and \<open>c + 1\<close> columns whose row 0 and column 0 are zero.
\<close>

definition zero_border :: "int list list \<Rightarrow> nat \<Rightarrow> nat \<Rightarrow> bool" where
  "zero_border m r c \<longleftrightarrow>
     wf_matrix m (Suc r) (Suc c) \<and> (\<forall>b\<le>c. m ! 0 ! b = 0) \<and> (\<forall>a\<le>r. m ! a ! 0 = 0)"

text \<open>
  The position is inside the matrix and off its border, and \<open>move\<close> is the move that
  \<open>_next_move\<close> selects there.
\<close>

definition tb_inv :: "int list list \<Rightarrow> nat \<Rightarrow> nat \<Rightarrow> tb_state \<Rightarrow> bool" where
  "tb_inv m r c st \<longleftrightarrow>
     1 \<le> tb_x st \<and> tb_x st \<le> int r \<and> 1 \<le> tb_y st \<and> tb_y st \<le> int c \<and>
     next_move m (tb_x st) (tb_y st) = Inr (tb_move st)"

lemma py_index2_int:
  assumes "wf_matrix m rows cols" and "0 \<le> i" "i < int rows" "0 \<le> j" "j < int cols"
  shows "py_index2 m i j = Inr (m ! nat i ! nat j)"
  using py_index2_nat [OF assms(1), of "nat i" "nat j"] assms(2-5) by simp

lemma next_move_in_range:
  assumes zb: "zero_border m r c"
    and x: "1 \<le> x" "x \<le> int r" and y: "1 \<le> y" "y \<le> int c"
  shows "\<exists>mv. next_move m x y = Inr mv \<and> (mv = DIAG \<longrightarrow> 2 \<le> x \<and> 2 \<le> y) \<and>
     (mv = UP \<longrightarrow> 2 \<le> x) \<and> (mv = LEFT \<longrightarrow> 2 \<le> y)"
proof -
  from zb have wf: "wf_matrix m (Suc r) (Suc c)"
    and r0: "\<And>b. b \<le> c \<Longrightarrow> m ! 0 ! b = 0" and c0: "\<And>a. a \<le> r \<Longrightarrow> m ! a ! 0 = 0"
    by (simp_all add: zero_border_def)
  let ?d = "m ! nat (x - 1) ! nat (y - 1)"
  let ?u = "m ! nat (x - 1) ! nat y"
  let ?l = "m ! nat x ! nat (y - 1)"
  have d: "py_index2 m (x - 1) (y - 1) = Inr ?d"
    using x y by (intro py_index2_int [OF wf]) simp_all
  have u: "py_index2 m (x - 1) y = Inr ?u"
    using x y by (intro py_index2_int [OF wf]) simp_all
  have l: "py_index2 m x (y - 1) = Inr ?l"
    using x y by (intro py_index2_int [OF wf]) simp_all
  have dz: "?d = 0" if "x = 1 \<or> y = 1"
    using that
  proof
    assume "x = 1"
    then show ?thesis using r0 [of "nat (y - 1)"] y by simp
  next
    assume "y = 1"
    then show ?thesis using c0 [of "nat (x - 1)"] x by simp
  qed
  have uz: "?u = 0" if "x = 1"
    using that r0 [of "nat y"] y by simp
  have lz: "?l = 0" if "y = 1"
    using that c0 [of "nat x"] x by simp
  have ord: "?d \<ge> ?u \<and> ?d \<ge> ?l \<or> ?u > ?d \<and> ?u \<ge> ?l \<or> ?l > ?d \<and> ?l > ?u"
    by linarith
  have x2: "2 \<le> x \<longleftrightarrow> x \<noteq> 1" and y2: "2 \<le> y \<longleftrightarrow> y \<noteq> 1"
    using x y by linarith+
  from ord consider (diag) "?d \<ge> ?u" "?d \<ge> ?l"
    | (up) "\<not> (?d \<ge> ?u \<and> ?d \<ge> ?l)" "?u > ?d" "?u \<ge> ?l"
    | (left) "\<not> (?d \<ge> ?u \<and> ?d \<ge> ?l)" "\<not> (?u > ?d \<and> ?u \<ge> ?l)" "?l > ?d" "?l > ?u"
    by linarith
  then show ?thesis
  proof cases
    case diag
    then have "next_move m x y = Inr (if ?d \<noteq> 0 then DIAG else END)"
      unfolding next_move_def d u l ebind_simps by simp
    then show ?thesis using dz unfolding x2 y2 by auto
  next
    case up
    then have "next_move m x y = Inr (if ?u \<noteq> 0 then UP else END)"
      unfolding next_move_def d u l ebind_simps by simp
    then show ?thesis using uz unfolding x2 y2 by auto
  next
    case left
    then have "next_move m x y = Inr (if ?l \<noteq> 0 then LEFT else END)"
      unfolding next_move_def d u l ebind_simps by simp
    then show ?thesis using lz unfolding x2 y2 by auto
  qed
qed

lemma py_index_pos:
  "1 \<le> x \<Longrightarrow> x \<le> int (length s) \<Longrightarrow> py_index s (x - 1) = Inr (s ! nat (x - 1))"
  by (simp add: py_index_def)

lemma loop_body_inv:
  assumes zb: "zero_border m (length s1) (length s2)"
    and inv: "tb_inv m (length s1) (length s2) st"
    and ne: "tb_move st \<noteq> END"
  shows "\<exists>st'. loop_body m s1 s2 st = Inr st' \<and> tb_inv m (length s1) (length s2) st'"
proof -
  from inv have x: "1 \<le> tb_x st" "tb_x st \<le> int (length s1)"
    and y: "1 \<le> tb_y st" "tb_y st \<le> int (length s2)"
    and mv: "next_move m (tb_x st) (tb_y st) = Inr (tb_move st)"
    by (simp_all add: tb_inv_def)
  from next_move_in_range [OF zb x y] mv
  have dg: "tb_move st = DIAG \<Longrightarrow> 2 \<le> tb_x st \<and> 2 \<le> tb_y st"
    and up: "tb_move st = UP \<Longrightarrow> 2 \<le> tb_x st"
    and lf: "tb_move st = LEFT \<Longrightarrow> 2 \<le> tb_y st"
    by auto
  note c1 = py_index_pos [OF x] and c2 = py_index_pos [OF y]
  show ?thesis
  proof (cases "tb_move st")
    case END
    with ne show ?thesis by simp
  next
    case DIAG
    from dg [OF DIAG] x y
    have "1 \<le> tb_x st - 1" "tb_x st - 1 \<le> int (length s1)"
      "1 \<le> tb_y st - 1" "tb_y st - 1 \<le> int (length s2)" by simp_all
    from next_move_in_range [OF zb this] obtain mv' where
      n: "next_move m (tb_x st - 1) (tb_y st - 1) = Inr mv'" by blast
    show ?thesis
      unfolding loop_body_def DIAG move.case c1 c2 ebind_simps
      using dg [OF DIAG] x y n by (simp add: tb_inv_def)
  next
    case UP
    from up [OF UP] x y
    have "1 \<le> tb_x st - 1" "tb_x st - 1 \<le> int (length s1)" by simp_all
    from next_move_in_range [OF zb this y] obtain mv' where
      n: "next_move m (tb_x st - 1) (tb_y st) = Inr mv'" by blast
    show ?thesis
      unfolding loop_body_def UP move.case c1 ebind_simps
      using up [OF UP] x y n by (simp add: tb_inv_def)
  next
    case LEFT
    from lf [OF LEFT] x y
    have "1 \<le> tb_y st - 1" "tb_y st - 1 \<le> int (length s2)" by simp_all
    from next_move_in_range [OF zb x this] obtain mv' where
      n: "next_move m (tb_x st) (tb_y st - 1) = Inr mv'" by blast
    show ?thesis
      unfolding loop_body_def LEFT move.case c2 ebind_simps
      using lf [OF LEFT] x y n by (simp add: tb_inv_def)
  qed
qed


lemma loop_iter_inv:
  "zero_border m (length s1) (length s2) \<Longrightarrow> tb_inv m (length s1) (length s2) st \<Longrightarrow>
   \<exists>st'. loop_iter m s1 s2 n st = Inr st' \<and> tb_inv m (length s1) (length s2) st' \<and>
     (tb_move st' = END \<or> tb_x st' + tb_y st' + int n \<le> tb_x st + tb_y st)"
proof (induction n arbitrary: st)
  case 0
  then show ?case by simp
next
  case (Suc n)
  show ?case
  proof (cases "tb_move st = END")
    case True
    with Suc.prems show ?thesis by simp
  next
    case False
    from loop_body_inv [OF Suc.prems False] obtain st1 where
      b: "loop_body m s1 s2 st = Inr st1" and i: "tb_inv m (length s1) (length s2) st1"
      by blast
    from Suc.IH [OF Suc.prems(1) i] obtain st' where
      s: "loop_iter m s1 s2 n st1 = Inr st'" "tb_inv m (length s1) (length s2) st'"
      "tb_move st' = END \<or> tb_x st' + tb_y st' + int n \<le> tb_x st1 + tb_y st1" by blast
    from loop_body_coords(3) [OF b] s(3)
    have "tb_move st' = END \<or> tb_x st' + tb_y st' + int (Suc n) \<le> tb_x st + tb_y st"
      by auto
    moreover have "loop_iter m s1 s2 (Suc n) st = loop_iter m s1 s2 n st1"
      using False b by simp
    ultimately show ?thesis using s(1,2) by simp
  qed
qed

lemma loop_iter_END:
  "loop_iter m s1 s2 n st = Inr st' \<Longrightarrow> tb_move st' = END \<Longrightarrow>
   traceback_loop m s1 s2 st = Inr st'"
proof (induction n arbitrary: st)
  case 0
  then show ?case by (simp add: traceback_loop.simps)
next
  case (Suc n)
  show ?case
  proof (cases "tb_move st = END")
    case True
    with Suc.prems show ?thesis by (simp add: traceback_loop.simps)
  next
    case False
    with Suc.prems(1) obtain st1 where b: "loop_body m s1 s2 st = Inr st1"
      and l: "loop_iter m s1 s2 n st1 = Inr st'"
      by (auto simp: ebind_eq_Inr)
    from Suc.IH [OF l Suc.prems(2)] have "traceback_loop m s1 s2 st1 = Inr st'" .
    with False b show ?thesis by (subst traceback_loop.simps) simp
  qed
qed

lemma create_score_matrix_start:
  assumes c: "create_score_matrix (length seq1 + 1) (length seq2 + 1) seq1 seq2
      = Inr (m, (x0, y0))"
  shows "zero_border m (length seq1) (length seq2)"
    and "1 \<le> x0" "x0 \<le> int (length seq1)" "1 \<le> y0" "y0 \<le> int (length seq2)"
proof -
  obtain st where f: "fill_matrix (length seq1 + 1) (length seq2 + 1) seq1 seq2 = Inr st"
    using fill_matrix_total by blast
  from c have m: "m = score_matrix st" and mp: "max_pos st = Some (x0, y0)"
    unfolding create_score_matrix_def f ebind_simps by (auto split: option.splits)
  show "zero_border m (length seq1) (length seq2)"
    unfolding zero_border_def m
    using fill_matrix_facts(1) [OF f] fill_matrix_facts(2) [OF f] by simp
  from fill_matrix_facts(5) [OF f mp]
  show "1 \<le> x0" "x0 \<le> int (length seq1)" "1 \<le> y0" "y0 \<le> int (length seq2)"
    by auto
qed

lemma traceback_start:
  assumes c: "create_score_matrix (length seq1 + 1) (length seq2 + 1) seq1 seq2
      = Inr (m, (x0, y0))"
  shows "\<exists>mv0. next_move m x0 y0 = Inr mv0 \<and>
     tb_inv m (length seq1) (length seq2)
       \<lparr>tb_x = x0, tb_y = y0, tb_aligned_seq1 = [], tb_aligned_seq2 = [], tb_move = mv0\<rparr>"
proof -
  note s = create_score_matrix_start [OF c]
  from next_move_in_range [OF s] obtain mv0 where "next_move m x0 y0 = Inr mv0" by blast
  with s show ?thesis by (simp add: tb_inv_def)
qed

section \<open>Termination of the traceback\<close>

text \<open>
  Claim C10. On the matrix and endpoint \<open>(x0, y0)\<close> that \<open>_create_score_matrix\<close>
  returns, the first move is defined; after any number of iterations of the traceback
  loop no error has occurred and both coordinates are at least 1; every iteration lowers
  \<open>x + y\<close>; and within \<open>x0 + y0\<close> iterations the loop has reached the move
  \<open>END\<close>, which is where the loop stops.
\<close>

theorem traceback_terminates:
  assumes c: "create_score_matrix (length seq1 + 1) (length seq2 + 1) seq1 seq2
      = Inr (m, (x0, y0))"
  shows "\<exists>mv0. next_move m x0 y0 = Inr mv0
     \<and> (\<forall>n. \<exists>st. loop_iter m seq1 seq2 n
            \<lparr>tb_x = x0, tb_y = y0, tb_aligned_seq1 = [], tb_aligned_seq2 = [], tb_move = mv0\<rparr>
              = Inr st \<and> 1 \<le> tb_x st \<and> 1 \<le> tb_y st)
     \<and> (\<forall>st st'. loop_body m seq1 seq2 st = Inr st' \<longrightarrow>
            tb_x st' + tb_y st' < tb_x st + tb_y st)
     \<and> (\<exists>st. loop_iter m seq1 seq2 (nat (x0 + y0))
            \<lparr>tb_x = x0, tb_y = y0, tb_aligned_seq1 = [], tb_aligned_seq2 = [], tb_move = mv0\<rparr>
              = Inr st \<and> tb_move st = END
          \<and> traceback_loop m seq1 seq2
            \<lparr>tb_x = x0, tb_y = y0, tb_aligned_seq1 = [], tb_aligned_seq2 = [], tb_move = mv0\<rparr>
              = Inr st)"
proof -
  note zb = create_score_matrix_start(1) [OF c]
  from traceback_start [OF c] obtain mv0 where mv0: "next_move m x0 y0 = Inr mv0"
    and inv: "tb_inv m (length seq1) (length seq2)
       \<lparr>tb_x = x0, tb_y = y0, tb_aligned_seq1 = [], tb_aligned_seq2 = [], tb_move = mv0\<rparr>"
    by blast
  let ?st0 = "\<lparr>tb_x = x0, tb_y = y0, tb_aligned_seq1 = [], tb_aligned_seq2 = [], tb_move = mv0\<rparr>"
  have 1: "\<forall>n. \<exists>st. loop_iter m seq1 seq2 n ?st0 = Inr st \<and> 1 \<le> tb_x st \<and> 1 \<le> tb_y st"
  proof
    fix n
    from loop_iter_inv [OF zb inv, of n] show
      "\<exists>st. loop_iter m seq1 seq2 n ?st0 = Inr st \<and> 1 \<le> tb_x st \<and> 1 \<le> tb_y st"
      by (auto simp: tb_inv_def)
  qed
  have 2: "\<forall>st st'. loop_body m seq1 seq2 st = Inr st' \<longrightarrow>
            tb_x st' + tb_y st' < tb_x st + tb_y st"
    using loop_body_coords(3) by blast
  from loop_iter_inv [OF zb inv, of "nat (x0 + y0)"] obtain st where
    l: "loop_iter m seq1 seq2 (nat (x0 + y0)) ?st0 = Inr st"
    and i: "tb_inv m (length seq1) (length seq2) st"
    and d: "tb_move st = END \<or> tb_x st + tb_y st + int (nat (x0 + y0)) \<le> x0 + y0"
    by auto
  from i have "2 \<le> tb_x st + tb_y st" by (simp add: tb_inv_def)
  with d have e: "tb_move st = END" by linarith
  from l e loop_iter_END [OF l e] have 3: "\<exists>st. loop_iter m seq1 seq2 (nat (x0 + y0)) ?st0
      = Inr st \<and> tb_move st = END \<and> traceback_loop m seq1 seq2 ?st0 = Inr st"
    by blast
  from mv0 1 2 3 show ?thesis by blast
qed

theorem traceback_terminates_witness:
  "create_score_matrix (length ''TAG'' + 1) (length ''GAG'' + 1) ''TAG'' ''GAG''
     = Inr ([[0, 0, 0, 0], [0, 0, 0, 0], [0, 0, 2, 1], [0, 2, 1, 4]], (3, 3))
   \<and> (\<exists>st. traceback_loop [[0, 0, 0, 0], [0, 0, 0, 0], [0, 0, 2, 1], [0, 2, 1, 4]]
              ''TAG'' ''GAG''
              \<lparr>tb_x = 3, tb_y = 3, tb_aligned_seq1 = [], tb_aligned_seq2 = [], tb_move = DIAG\<rparr>
            = Inr st \<and> tb_move st = END)"
proof -
  let ?M = "[[0, 0, 0, 0], [0, 0, 0, 0], [0, 0, 2, 1], [0, 2, 1, 4 :: int]]"
  have e: "create_score_matrix (length ''TAG'' + 1) (length ''GAG'' + 1) ''TAG'' ''GAG''
      = Inr (?M, (3, 3))"
    by code_simp
  have n: "next_move ?M 3 3 = Inr DIAG"
    by code_simp
  from traceback_terminates [OF e] obtain mv0 where
    r: "next_move ?M 3 3 = Inr mv0
     \<and> (\<forall>n. \<exists>st. loop_iter ?M ''TAG'' ''GAG'' n
            \<lparr>tb_x = 3, tb_y = 3, tb_aligned_seq1 = [], tb_aligned_seq2 = [], tb_move = mv0\<rparr>
              = Inr st \<and> 1 \<le> tb_x st \<and> 1 \<le> tb_y st)
     \<and> (\<forall>st st'. loop_body ?M ''TAG'' ''GAG'' st = Inr st' \<longrightarrow>
            tb_x st' + tb_y st' < tb_x st + tb_y st)
     \<and> (\<exists>st. loop_iter ?M ''TAG'' ''GAG'' (nat (3 + 3))
            \<lparr>tb_x = 3, tb_y = 3, tb_aligned_seq1 = [], tb_aligned_seq2 = [], tb_move = mv0\<rparr>
              = Inr st \<and> tb_move st = END
          \<and> traceback_loop ?M ''TAG'' ''GAG''
            \<lparr>tb_x = 3, tb_y = 3, tb_aligned_seq1 = [], tb_aligned_seq2 = [], tb_move = mv0\<rparr>
              = Inr st)" ..
  from r have "next_move ?M 3 3 = Inr mv0" by (rule conjunct1)
  then have mv0: "mv0 = DIAG" unfolding n by simp
  note last = r [THEN conjunct2, THEN conjunct2, THEN conjunct2, unfolded mv0]
  from last obtain st where
    s: "loop_iter ?M ''TAG'' ''GAG'' (nat (3 + 3))
            \<lparr>tb_x = 3, tb_y = 3, tb_aligned_seq1 = [], tb_aligned_seq2 = [], tb_move = DIAG\<rparr>
              = Inr st \<and> tb_move st = END
          \<and> traceback_loop ?M ''TAG'' ''GAG''
            \<lparr>tb_x = 3, tb_y = 3, tb_aligned_seq1 = [], tb_aligned_seq2 = [], tb_move = DIAG\<rparr>
              = Inr st" ..
  from s have t: "traceback_loop ?M ''TAG'' ''GAG''
            \<lparr>tb_x = 3, tb_y = 3, tb_aligned_seq1 = [], tb_aligned_seq2 = [], tb_move = DIAG\<rparr>
              = Inr st"
    by (elim conjE)
  from s have m: "tb_move st = END"
    by (elim conjE)
  from t m have "\<exists>st. traceback_loop ?M ''TAG'' ''GAG''
            \<lparr>tb_x = 3, tb_y = 3, tb_aligned_seq1 = [], tb_aligned_seq2 = [], tb_move = DIAG\<rparr>
              = Inr st \<and> tb_move st = END"
    by (intro exI [of _ st] conjI)
  with e show ?thesis by (rule conjI)
qed

section \<open>The pair appended after the loop\<close>




section \<open>Aligning a sequence with itself\<close>

lemma score_at_le: "score_at s1 s2 i j \<le> 2 * int (min i j)"
proof (induction s1 s2 i j rule: score_at.induct)
  case (1 s1 s2 j)
  show ?case by simp
next
  case (2 s1 s2 i)
  show ?case by simp
next
  case (3 s1 s2 i j)
  have "(if s1 ! i = s2 ! j then match else mismatch) \<le> 2"
    by (simp add: match_def mismatch_def)
  with 3 show ?case
    unfolding score_at.simps(3) gap_def by (simp add: min_def split: if_splits)
qed

lemma score_at_diag: "score_at s s i i = 2 * int i"
proof (induction i)
  case 0
  show ?case by simp
next
  case (Suc i)
  from score_at_le [of s s i "Suc i"] have u: "score_at s s i (Suc i) \<le> 2 * int i"
    by simp
  from score_at_le [of s s "Suc i" i] have l: "score_at s s (Suc i) i \<le> 2 * int i"
    by simp
  from Suc u l show ?case
    unfolding score_at.simps(3) by (simp add: match_def gap_def)
qed

lemma self_endpoint:
  assumes ne: "s \<noteq> []"
    and f: "fill_matrix (length s + 1) (length s + 1) s s = Inr st"
  shows "max_pos st = Some (int (length s), int (length s))"
    and "max_score st = 2 * int (length s)"
proof -
  let ?n = "length s"
  from fill_matrix_facts(3) [OF f, of ?n ?n] have ge: "2 * int ?n \<le> max_score st"
    by (simp add: score_at_diag)
  with ne have pos: "0 < max_score st" by (cases s) auto
  with fill_matrix_facts(4) [OF f] obtain p where "max_pos st = Some p"
    by (cases "max_pos st") auto
  moreover obtain x y where "p = (x, y)" by (cases p)
  ultimately have mp: "max_pos st = Some (x, y)" by simp
  from fill_matrix_facts(5) [OF f mp] obtain a b where ab: "x = int a" "y = int b"
    "a \<le> ?n" "b \<le> ?n" "score_at s s a b = max_score st" by blast
  from score_at_le [of s s a b] ab(5) ge have "int ?n \<le> int (min a b)" by linarith
  with ab(3,4) have "a = ?n" "b = ?n" by simp_all
  with mp ab show "max_pos st = Some (int (length s), int (length s))" by simp
  from \<open>a = ?n\<close> \<open>b = ?n\<close> ab(5) show "max_score st = 2 * int (length s)"
    by (simp add: score_at_diag)
qed

lemma self_next_move:
  assumes wf: "wf_matrix m (Suc (length s)) (Suc (length s))"
    and cells: "\<And>a b. a \<le> length s \<Longrightarrow> b \<le> length s \<Longrightarrow> m ! a ! b = score_at s s a b"
    and k: "k < length s"
  shows "next_move m (int (Suc k)) (int (Suc k)) = Inr (if k = 0 then END else DIAG)"
proof -
  have d: "py_index2 m (int (Suc k) - 1) (int (Suc k) - 1) = Inr (2 * int k)"
    using py_index2_nat [OF wf, of k k] k cells [of k k] by (simp add: score_at_diag)
  have u: "py_index2 m (int (Suc k) - 1) (int (Suc k)) = Inr (score_at s s k (Suc k))"
    using py_index2_nat [OF wf, of k "Suc k"] k cells [of k "Suc k"] by simp
  have l: "py_index2 m (int (Suc k)) (int (Suc k) - 1) = Inr (score_at s s (Suc k) k)"
    using py_index2_nat [OF wf, of "Suc k" k] k cells [of "Suc k" k] by simp
  from score_at_le [of s s k "Suc k"] have u': "score_at s s k (Suc k) \<le> 2 * int k" by simp
  from score_at_le [of s s "Suc k" k] have l': "score_at s s (Suc k) k \<le> 2 * int k" by simp
  show ?thesis
    unfolding next_move_def d u l ebind_simps using u' l' by simp
qed

lemma self_traceback_loop:
  assumes wf: "wf_matrix m (Suc (length s)) (Suc (length s))"
    and cells: "\<And>a b. a \<le> length s \<Longrightarrow> b \<le> length s \<Longrightarrow> m ! a ! b = score_at s s a b"
  shows "k < length s \<Longrightarrow>
    traceback_loop m s s
      \<lparr>tb_x = int (Suc k), tb_y = int (Suc k), tb_aligned_seq1 = a1, tb_aligned_seq2 = a2,
       tb_move = (if k = 0 then END else DIAG)\<rparr>
    = Inr \<lparr>tb_x = 1, tb_y = 1,
           tb_aligned_seq1 = a1 @ rev (drop 1 (take (Suc k) s)),
           tb_aligned_seq2 = a2 @ rev (drop 1 (take (Suc k) s)),
           tb_move = END\<rparr>"
proof (induction k arbitrary: a1 a2)
  case 0
  then show ?case
    by (cases s) (simp_all add: traceback_loop.simps)
next
  case (Suc k)
  then have k: "k < length s" and sk: "Suc k < length s" by simp_all
  have c: "py_index s (int (Suc (Suc k)) - 1) = Inr (s ! Suc k)"
    using py_index_nat [OF sk] by simp
  have n: "next_move m (int (Suc (Suc k)) - 1) (int (Suc (Suc k)) - 1)
      = Inr (if k = 0 then END else DIAG)"
    using self_next_move [OF wf cells k] by simp
  have b: "loop_body m s s
      \<lparr>tb_x = int (Suc (Suc k)), tb_y = int (Suc (Suc k)), tb_aligned_seq1 = a1,
       tb_aligned_seq2 = a2, tb_move = DIAG\<rparr>
    = Inr \<lparr>tb_x = int (Suc k), tb_y = int (Suc k), tb_aligned_seq1 = a1 @ [s ! Suc k],
       tb_aligned_seq2 = a2 @ [s ! Suc k], tb_move = (if k = 0 then END else DIAG)\<rparr>"
    unfolding loop_body_def
    by (simp add: c n del: of_nat_Suc)
  have t: "take (Suc (Suc k)) s = take (Suc k) s @ [s ! Suc k]"
    using sk by (rule take_Suc_conv_app_nth)
  have "take (Suc k) s \<noteq> []" using k by (cases s) auto
  then have dr: "drop 1 (take (Suc k) s @ [s ! Suc k]) = drop 1 (take (Suc k) s) @ [s ! Suc k]"
    by (cases "take (Suc k) s") simp_all
  have "traceback_loop m s s
      \<lparr>tb_x = int (Suc (Suc k)), tb_y = int (Suc (Suc k)), tb_aligned_seq1 = a1,
       tb_aligned_seq2 = a2, tb_move = (if Suc k = 0 then END else DIAG)\<rparr>
    = traceback_loop m s s
      \<lparr>tb_x = int (Suc k), tb_y = int (Suc k), tb_aligned_seq1 = a1 @ [s ! Suc k],
       tb_aligned_seq2 = a2 @ [s ! Suc k], tb_move = (if k = 0 then END else DIAG)\<rparr>"
    by (subst traceback_loop.simps) (simp add: b del: of_nat_Suc)
  also have "\<dots> = Inr \<lparr>tb_x = 1, tb_y = 1,
           tb_aligned_seq1 = (a1 @ [s ! Suc k]) @ rev (drop 1 (take (Suc k) s)),
           tb_aligned_seq2 = (a2 @ [s ! Suc k]) @ rev (drop 1 (take (Suc k) s)),
           tb_move = END\<rparr>"
    by (rule Suc.IH [OF k])
  finally show ?case unfolding t dr by simp
qed

lemma self_traceback:
  assumes ne: "s \<noteq> []"
    and wf: "wf_matrix m (Suc (length s)) (Suc (length s))"
    and cells: "\<And>a b. a \<le> length s \<Longrightarrow> b \<le> length s \<Longrightarrow> m ! a ! b = score_at s s a b"
  shows "traceback m (int (length s), int (length s)) s s = Inr (s, s)"
proof -
  from ne obtain k where n: "length s = Suc k" by (cases s) auto
  then have k: "k < length s" by simp
  have mv: "next_move m (int (Suc k)) (int (Suc k)) = Inr (if k = 0 then END else DIAG)"
    by (rule self_next_move [OF wf cells k])
  note l = self_traceback_loop [OF wf cells k, of "[]" "[]"]
  have c: "py_index s 0 = Inr (s ! 0)"
    using py_index_nat [of 0 s] ne by simp
  have "s ! 0 # drop 1 (take (Suc k) s) = s"
    using ne n by (cases s) simp_all
  then show ?thesis
    apply (simp only: traceback_def n prod.case mv ebind_simps)
    apply (simp only: l)
    apply (simp add: c)
    done
qed

text \<open>
  Claim C7. For a non-empty sequence \<open>s\<close>, \<open>align(s, s)\<close> returns \<open>s\<close> twice, with
  no gap inserted, and the score \<open>2 * len(s)\<close>.
\<close>

theorem align_self:
  assumes ne: "s \<noteq> []"
  shows "align s s = Inr (s, s, 2 * int (length s))"
proof -
  obtain st where f: "fill_matrix (length s + 1) (length s + 1) s s = Inr st"
    using fill_matrix_total by blast
  note wf = fill_matrix_facts(1) [OF f] and cells = fill_matrix_facts(2) [OF f]
  note mp = self_endpoint(1) [OF ne f]
  have c: "create_score_matrix (length s + 1) (length s + 1) s s
      = Inr (score_matrix st, (int (length s), int (length s)))"
    unfolding create_score_matrix_def f ebind_simps mp by simp
  have sc: "py_index2 (score_matrix st) (int (length s)) (int (length s))
      = Inr (2 * int (length s))"
    using py_index2_nat [OF wf, of "length s" "length s"] cells [of "length s" "length s"]
    by (simp add: score_at_diag)
  have tb: "traceback (score_matrix st) (int (length s), int (length s)) s s = Inr (s, s)"
    using ne wf cells by (rule self_traceback)
  show ?thesis
    unfolding align_def Let_def c ebind_simps prod.case sc tb by simp
qed

theorem align_self_witness:
  "align ''ACGT'' ''ACGT'' = Inr (''ACGT'', ''ACGT'', 8)"
proof -
  have "''ACGT'' \<noteq> []" by simp
  from align_self [OF this] show ?thesis by simp
qed

end
